theory Spec2Isabelle
  imports Complex_Main "HOL-Library.AList"
begin

section \<open>Errors\<close>

text \<open>
  The source raises plain \<^verbatim>\<open>Exception\<close> objects that differ by their message; the
  constructors below name each raise site of \<^verbatim>\<open>src/evaluation.py\<close> after the error kind
  the specification gives it, and keep the values the message is built from. The
  remaining constructors are the built-in exceptions that the interpreter raises on a
  failed subscript, a failed conversion, an unsupported operand or an unbound local.
  Calls of \<^verbatim>\<open>logger.critical\<close> stand directly before a raise and change neither the
  state nor the control flow; they are left out.
\<close>

datatype error =
    RangeDefinitionError string nat nat
  | QuestionOverlapError string string "string list"
  | UnequalLengthsError
  | SectionOverlapError string
  | MissingMarkingSchemeError
  | MissingAnswerKeyError
  | ResponseCoverageError
  | IndexError
  | KeyError
  | ValueError
  | ZeroDivisionError
  | TypeError
  | UnboundLocalError

section \<open>Question strings\<close>

text \<open>
  Strings are lists of 8-bit characters; the digits are the ASCII digits.
\<close>

definition is_digit :: "char \<Rightarrow> bool" where
  "is_digit c = (c \<in> set ''0123456789'')"

definition is_dot :: "char \<Rightarrow> bool" where
  "is_dot c = (c = CHR ''.'')"

text \<open>The character class \<^verbatim>\<open>[^\.\d]\<close>.\<close>

definition is_prefix_char :: "char \<Rightarrow> bool" where
  "is_prefix_char c = (\<not> is_dot c \<and> \<not> is_digit c)"

text \<open>\<^verbatim>\<open>int(s)\<close> on a string of digits, and \<^verbatim>\<open>str(n)\<close> on a natural number.\<close>

definition digit_val :: "char \<Rightarrow> nat" where
  "digit_val c = of_char c - 48"

definition int_of_digits :: "string \<Rightarrow> nat" where
  "int_of_digits s = foldl (\<lambda>acc c. 10 * acc + digit_val c) 0 s"

definition digit_char :: "nat \<Rightarrow> char" where
  "digit_char d = char_of (48 + d)"

fun str_nat :: "nat \<Rightarrow> string" where
  "str_nat n = (if n < 10 then [digit_char n] else str_nat (n div 10) @ [digit_char (n mod 10)])"

declare str_nat.simps [simp del]

text \<open>
  One attempt of the pattern \<^verbatim>\<open>([^\.\d]+)(\d+)\.{2,3}(\d+)\<close> at the head of a string.
  Every quantifier of the pattern is greedy and is followed by a class disjoint from
  its own, so the only run length that can lead to a match is the maximal one: the
  prefix is the longest run of prefix characters, the start the longest run of digits,
  the dots a run of exactly two or three (a longer run leaves a dot where a digit is
  required), and the end the longest run of digits.
\<close>

definition match_at :: "string \<Rightarrow> (string \<times> string \<times> string) option" where
  "match_at s =
     (let question_prefix = takeWhile is_prefix_char s;
          r1 = dropWhile is_prefix_char s;
          start = takeWhile is_digit r1;
          r2 = dropWhile is_digit r1;
          dots = takeWhile is_dot r2;
          r3 = dropWhile is_dot r2;
          end = takeWhile is_digit r3
      in if question_prefix \<noteq> [] \<and> start \<noteq> [] \<and> (length dots = 2 \<or> length dots = 3) \<and> end \<noteq> []
         then Some (question_prefix, start, end) else None)"

text \<open>
  \<^verbatim>\<open>re.findall(pattern, s)[0]\<close>: the leftmost match, found by trying every start
  position from the left; \<^verbatim>\<open>None\<close> is the empty result list, on which the subscript
  raises.
\<close>

fun findall_first :: "string \<Rightarrow> (string \<times> string \<times> string) option" where
  "findall_first [] = None"
| "findall_first (c # cs) =
     (case match_at (c # cs) of Some m \<Rightarrow> Some m | None \<Rightarrow> findall_first cs)"

definition parse_question_string :: "string \<Rightarrow> error + string list" where
  "parse_question_string question_string =
     (if CHR ''.'' \<in> set question_string then
        (case findall_first question_string of
           None \<Rightarrow> Inl IndexError
         | Some (question_prefix, start_s, end_s) \<Rightarrow>
             (let start = int_of_digits start_s; end = int_of_digits end_s
              in if start \<ge> end
                 then Inl (RangeDefinitionError question_string start end)
                 else Inr (map (\<lambda>question_number. question_prefix @ str_nat question_number)
                             [start ..< end + 1])))
      else Inr [question_string])"

text \<open>
  The loop of \<^verbatim>\<open>parse_questions\<close>. The source creates \<^verbatim>\<open>questions_set = set()\<close>
  before the loop and never assigns or updates it afterwards, so the loop carries it
  unchanged.
\<close>

fun parse_questions_loop ::
  "string \<Rightarrow> string list \<Rightarrow> string set \<Rightarrow> string list \<Rightarrow> string list \<Rightarrow> error + string list" where
  "parse_questions_loop key questions questions_set parsed_questions [] = Inr parsed_questions"
| "parse_questions_loop key questions questions_set parsed_questions (question_string # rest) =
     (case parse_question_string question_string of
        Inl e \<Rightarrow> Inl e
      | Inr questions_array \<Rightarrow>
          (if \<not> (questions_set \<inter> set questions_array = {})
           then Inl (QuestionOverlapError question_string key questions)
           else parse_questions_loop key questions questions_set
                  (parsed_questions @ questions_array) rest))"

definition parse_questions :: "string \<Rightarrow> string list \<Rightarrow> error + string list" where
  "parse_questions key questions = parse_questions_loop key questions {} [] questions"

section \<open>Marking values\<close>

text \<open>
  The values found in a marking rule: a number, a string literal, a list, and the
  iterator object that \<^verbatim>\<open>map(f, xs)\<close> returns. Python 3 evaluates \<^verbatim>\<open>map\<close> lazily and
  its result is not of type \<^verbatim>\<open>list\<close>; \<^verbatim>\<open>PyMapObject xs\<close> is the iterator of
  \<^verbatim>\<open>map(parse_float_or_fraction, xs)\<close> with none of its elements computed yet. Numbers are
  exact rationals: the rounding of \<^verbatim>\<open>float\<close> to binary64 is not modelled.
\<close>

datatype pyval =
    PyNum rat
  | PyStr string
  | PyList "pyval list"
  | PyMapObject "pyval list"

datatype verdict = Correct | Incorrect | Unmarked

text \<open>
  Modelled from the spec: the three constants imported from
  \<^verbatim>\<open>src/schemas/evaluation_schema.py\<close>, which is not among the sources. The spec names
  three verdict kinds (correct, incorrect, unmarked), one reserved default key and one
  reserved bonus prefix; the two strings are fixed here so that examples can be
  evaluated, and no general theorem below depends on their spelling.
\<close>

definition MARKING_VERDICT_TYPES :: "verdict list" where
  "MARKING_VERDICT_TYPES = [Correct, Incorrect, Unmarked]"

definition DEFAULT_SECTION_KEY :: string where
  "DEFAULT_SECTION_KEY = ''DEFAULT''"

definition BONUS_SECTION_PREFIX :: string where
  "BONUS_SECTION_PREFIX = ''BONUS''"

definition startswith :: "string \<Rightarrow> string \<Rightarrow> bool" where
  "startswith s p = (take (length p) s = p)"

text \<open>
  \<^verbatim>\<open>float\<close> and \<^verbatim>\<open>Fraction\<close> are library functions. The model reads the literals that
  the specification names, a signed decimal and a signed \<^verbatim>\<open>a/b\<close>, and gives their exact
  value. It is narrower than the library: strings with exponents, surrounding blanks,
  underscores, \<^verbatim>\<open>inf\<close> or \<^verbatim>\<open>nan\<close> are read by Python and are a \<^verbatim>\<open>ValueError\<close> here, and
  the value is not rounded to binary64, so it neither underflows to 0.0 nor overflows.
  The theorems below evaluate it at the literal \<^verbatim>\<open>"1/2"\<close> alone, which Python reads
  exactly, and no general statement depends on what it returns.
\<close>

definition strip_sign :: "string \<Rightarrow> bool \<times> string" where
  "strip_sign s =
     (case s of
        [] \<Rightarrow> (False, s)
      | c # r \<Rightarrow> if c = CHR ''-'' then (True, r) else if c = CHR ''+'' then (False, r) else (False, s))"

definition signed :: "bool \<Rightarrow> rat \<Rightarrow> rat" where
  "signed neg x = (if neg then - x else x)"

definition py_float :: "string \<Rightarrow> error + rat" where
  "py_float s =
     (let (neg, body) = strip_sign s;
          ip = takeWhile (\<lambda>c. c \<noteq> CHR ''.'') body;
          fp = drop 1 (dropWhile (\<lambda>c. c \<noteq> CHR ''.'') body)
      in if list_all is_digit ip \<and> list_all is_digit fp \<and> (ip \<noteq> [] \<or> fp \<noteq> [])
         then Inr (signed neg (of_nat (int_of_digits ip) + of_nat (int_of_digits fp) / 10 ^ length fp))
         else Inl ValueError)"

definition py_Fraction :: "string \<Rightarrow> error + rat" where
  "py_Fraction s =
     (let (neg, body) = strip_sign s;
          n = takeWhile (\<lambda>c. c \<noteq> CHR ''/'') body;
          d = drop 1 (dropWhile (\<lambda>c. c \<noteq> CHR ''/'') body)
      in if n \<noteq> [] \<and> list_all is_digit n \<and> d \<noteq> [] \<and> list_all is_digit d
         then (if int_of_digits d = 0 then Inl ZeroDivisionError
               else Inr (signed neg (of_nat (int_of_digits n) / of_nat (int_of_digits d))))
         else Inl ValueError)"

definition parse_float_or_fraction :: "string \<Rightarrow> error + rat" where
  "parse_float_or_fraction result =
     (if CHR ''/'' \<in> set result then py_Fraction result else py_float result)"

section \<open>SectionMarkingScheme\<close>

text \<open>
  \<^verbatim>\<open>streaks\<close> is created with the three verdict keys and only those keys are ever
  assigned, so it is a total function on verdicts. \<^verbatim>\<open>marking\<close> is the dictionary that
  \<^verbatim>\<open>parse_scheme_marking\<close> builds. \<^verbatim>\<open>questions\<close> is \<^verbatim>\<open>None\<close> for the default section.
\<close>

record SectionMarkingScheme =
  empty_val :: string
  section_key :: string
  streaks :: "verdict \<Rightarrow> nat"
  questions :: "string list option"
  marking :: "verdict \<rightharpoonup> pyval"

text \<open>
  The one event logged without a raise: the warning of \<^verbatim>\<open>parse_scheme_marking\<close>, with
  the value and the section key its message shows. Functions that can log return the
  list of warnings beside their result; the warnings logged before a raise are kept.
\<close>

datatype warning = PositiveMarksForIncorrect rat string

fun parse_scheme_marking_loop ::
  "string \<Rightarrow> (verdict \<rightharpoonup> pyval) \<Rightarrow> verdict list \<Rightarrow> (verdict \<rightharpoonup> pyval) \<Rightarrow> warning list \<Rightarrow>
   warning list \<times> (error + (verdict \<rightharpoonup> pyval))" where
  "parse_scheme_marking_loop sk marking_json [] parsed_marking ws = (ws, Inr parsed_marking)"
| "parse_scheme_marking_loop sk marking_json (verdict_type # rest) parsed_marking ws =
     (case marking_json verdict_type of
        None \<Rightarrow> (ws, Inl KeyError)
      | Some (PyStr s) \<Rightarrow>
          (case parse_float_or_fraction s of
             Inl e \<Rightarrow> (ws, Inl e)
           | Inr result \<Rightarrow>
               parse_scheme_marking_loop sk marking_json rest
                 (parsed_marking(verdict_type \<mapsto> PyNum result))
                 (if result > 0 \<and> verdict_type = Incorrect \<and> \<not> startswith sk BONUS_SECTION_PREFIX
                  then ws @ [PositiveMarksForIncorrect result sk] else ws))
      | Some (PyList xs) \<Rightarrow>
          parse_scheme_marking_loop sk marking_json rest
            (parsed_marking(verdict_type \<mapsto> PyMapObject xs)) ws
      | Some result \<Rightarrow>
          parse_scheme_marking_loop sk marking_json rest
            (parsed_marking(verdict_type \<mapsto> result)) ws)"

definition parse_scheme_marking ::
  "string \<Rightarrow> (verdict \<rightharpoonup> pyval) \<Rightarrow> warning list \<times> (error + (verdict \<rightharpoonup> pyval))" where
  "parse_scheme_marking sk marking_json =
     parse_scheme_marking_loop sk marking_json MARKING_VERDICT_TYPES Map.empty []"

text \<open>
  A section of the marking-scheme block as loaded from JSON: the keys the constructor
  reads. For the default section the object itself is the marking rule
  (\<^verbatim>\<open>verdict_fields\<close>); any other section has the keys \<^verbatim>\<open>questions\<close> and \<^verbatim>\<open>marking\<close>.
\<close>

record section_json =
  questions_field :: "string list option"
  marking_field :: "(verdict \<rightharpoonup> pyval) option"
  verdict_fields :: "verdict \<rightharpoonup> pyval"

definition SectionMarkingScheme_init ::
  "string \<Rightarrow> section_json \<Rightarrow> string \<Rightarrow> warning list \<times> (error + SectionMarkingScheme)" where
  "SectionMarkingScheme_init sk section_scheme ev =
     (if sk = DEFAULT_SECTION_KEY then
        (case parse_scheme_marking sk (verdict_fields section_scheme) of
           (ws, Inl e) \<Rightarrow> (ws, Inl e)
         | (ws, Inr m) \<Rightarrow>
             (ws, Inr \<lparr>empty_val = ev, section_key = sk, streaks = (\<lambda>v. 0),
                       questions = None, marking = m\<rparr>))
      else
        (case questions_field section_scheme of
           None \<Rightarrow> ([], Inl KeyError)
         | Some tokens \<Rightarrow>
             (case parse_questions sk tokens of
                Inl e \<Rightarrow> ([], Inl e)
              | Inr qs \<Rightarrow>
                  (case marking_field section_scheme of
                     None \<Rightarrow> ([], Inl KeyError)
                   | Some marking_json \<Rightarrow>
                       (case parse_scheme_marking sk marking_json of
                          (ws, Inl e) \<Rightarrow> (ws, Inl e)
                        | (ws, Inr m) \<Rightarrow>
                            (ws, Inr \<lparr>empty_val = ev, section_key = sk, streaks = (\<lambda>v. 0),
                                      questions = Some qs, marking = m\<rparr>))))))"

definition get_question_verdict :: "SectionMarkingScheme \<Rightarrow> string \<Rightarrow> string \<Rightarrow> verdict" where
  "get_question_verdict self marked_answer correct_answer =
     (if marked_answer = empty_val self then Unmarked
      else if marked_answer = correct_answer then Correct
      else Incorrect)"

definition update_streaks_for_verdict :: "SectionMarkingScheme \<Rightarrow> verdict \<Rightarrow> SectionMarkingScheme" where
  "update_streaks_for_verdict self question_verdict =
     (let current_streak = streaks self question_verdict
      in self\<lparr>streaks :=
           fold (\<lambda>verdict_type st.
                   if question_verdict = verdict_type
                   then st(verdict_type := current_streak + 1)
                   else st(verdict_type := 0))
                MARKING_VERDICT_TYPES (streaks self)\<rparr>)"

text \<open>
  \<^verbatim>\<open>match_answer\<close> returns the delta, the verdict and the section after the update. A
  raise happens before \<^verbatim>\<open>update_streaks_for_verdict\<close> is reached and leaves the section
  as it was: the subscript \<^verbatim>\<open>marking[min(current_streak, len(marking) - 1)]\<close> is
  \<^verbatim>\<open>marking[-1]\<close> on an empty list.
\<close>

definition match_answer ::
  "SectionMarkingScheme \<Rightarrow> string \<Rightarrow> string \<Rightarrow> error + (pyval \<times> verdict \<times> SectionMarkingScheme)" where
  "match_answer self marked_answer correct_answer =
     (let question_verdict = get_question_verdict self marked_answer correct_answer;
          current_streak = streaks self question_verdict
      in case marking self question_verdict of
           None \<Rightarrow> Inl KeyError
         | Some (PyList xs) \<Rightarrow>
             (if xs = [] then Inl IndexError
              else Inr (xs ! min current_streak (length xs - 1), question_verdict,
                        update_streaks_for_verdict self question_verdict))
         | Some m \<Rightarrow>
             Inr (m, question_verdict, update_streaks_for_verdict self question_verdict))"

section \<open>EvaluationConfig\<close>

text \<open>
  A row of the explanation table. The two numeric columns hold the delta and the score
  after it; their rounding to two decimals and their rendering as text are left to the
  table. The last column is the streak counter of the verdict after the update.
\<close>

record explanation_row =
  row_question :: string
  row_marked :: string
  row_correct :: string
  row_verdict :: verdict
  row_delta :: rat
  row_score :: rat
  row_section :: string
  row_streak :: nat

text \<open>
  \<^verbatim>\<open>marking_scheme\<close> is a dictionary from section keys to section objects; it is a list
  of pairs in insertion order, since the loops over \<^verbatim>\<open>items()\<close> depend on the order.
  A concatenated response is a dictionary from question ids to marked answers.
\<close>

record EvaluationConfig =
  should_explain_scoring :: bool
  explanation_table :: "explanation_row list"
  questions_in_order :: "string list"
  answers_in_order :: "string list"
  marking_scheme :: "(string \<times> SectionMarkingScheme) list"

type_synonym response = "(string \<times> string) list"

text \<open>
  The evaluation file as loaded, for an answer key given inline. The branch that reads
  the answer key from a CSV file goes through the file system and is not modelled.
\<close>

record evaluation_json =
  json_should_explain_scoring :: "bool option"
  json_questions_in_order :: "string list"
  json_answers_in_order :: "string list"
  json_marking_scheme :: "(string \<times> section_json) list"

fun marking_scheme_loop ::
  "(string \<times> section_json) list \<Rightarrow> string \<Rightarrow> (string \<times> SectionMarkingScheme) list \<Rightarrow> warning list \<Rightarrow>
   warning list \<times> (error + (string \<times> SectionMarkingScheme) list)" where
  "marking_scheme_loop [] ev acc ws = (ws, Inr acc)"
| "marking_scheme_loop ((sk, section_scheme) # rest) ev acc ws =
     (case SectionMarkingScheme_init sk section_scheme ev of
        (ws', Inl e) \<Rightarrow> (ws @ ws', Inl e)
      | (ws', Inr sms) \<Rightarrow> marking_scheme_loop rest ev (AList.update sk sms acc) (ws @ ws'))"

definition parse_questions_in_order :: "string list \<Rightarrow> error + string list" where
  "parse_questions_in_order tokens = parse_questions ''questions_in_order'' tokens"

definition EvaluationConfig_init ::
  "evaluation_json \<Rightarrow> string \<Rightarrow> warning list \<times> (error + EvaluationConfig)" where
  "EvaluationConfig_init ej global_empty_val =
     (case parse_questions_in_order (json_questions_in_order ej) of
        Inl e \<Rightarrow> ([], Inl e)
      | Inr qs \<Rightarrow>
          (case marking_scheme_loop (json_marking_scheme ej) global_empty_val [] [] of
             (ws, Inl e) \<Rightarrow> (ws, Inl e)
           | (ws, Inr ms) \<Rightarrow>
               (ws, Inr \<lparr>should_explain_scoring =
                           (case json_should_explain_scoring ej of None \<Rightarrow> False | Some b \<Rightarrow> b),
                         explanation_table = [],
                         questions_in_order = qs,
                         answers_in_order = json_answers_in_order ej,
                         marking_scheme = ms\<rparr>)))"

text \<open>The loop of \<^verbatim>\<open>validate_all\<close> over the sections (lines 181 to 190).\<close>

fun section_questions_loop ::
  "(string \<times> SectionMarkingScheme) list \<Rightarrow> string set \<Rightarrow> error + string set" where
  "section_questions_loop [] section_questions = Inr section_questions"
| "section_questions_loop ((sk, section_scheme) # rest) section_questions =
     (if sk = DEFAULT_SECTION_KEY then section_questions_loop rest section_questions
      else
        (case questions section_scheme of
           None \<Rightarrow> Inl TypeError
         | Some qs \<Rightarrow>
             (let current_set = set qs
              in if \<not> (section_questions \<inter> current_set = {})
                 then Inl (SectionOverlapError sk)
                 else section_questions_loop rest (section_questions \<union> current_set))))"

definition validate_all :: "EvaluationConfig \<Rightarrow> response \<Rightarrow> error + unit" where
  "validate_all self omr_response =
     (if length (questions_in_order self) \<noteq> length (answers_in_order self)
      then Inl UnequalLengthsError
      else
        (case section_questions_loop (marking_scheme self) {} of
           Inl e \<Rightarrow> Inl e
         | Inr section_questions \<Rightarrow>
             (let answer_key_questions = set (questions_in_order self)
              in if answer_key_questions \<noteq> section_questions
                 then (if section_questions \<subseteq> answer_key_questions
                       then Inl MissingMarkingSchemeError
                       else Inl MissingAnswerKeyError)
                 else
                   (let omr_response_questions = set (map fst omr_response)
                    in if omr_response_questions \<subseteq> answer_key_questions
                       then Inl ResponseCoverageError
                       else Inr ()))))"

definition conditionally_add_explanation ::
  "EvaluationConfig \<Rightarrow> string \<Rightarrow> pyval \<Rightarrow> string \<Rightarrow> SectionMarkingScheme \<Rightarrow> verdict \<Rightarrow> string \<Rightarrow> rat \<Rightarrow>
   error + EvaluationConfig" where
  "conditionally_add_explanation self correct_answer delta marked_answer question_marking_scheme
       question_verdict question score =
     (if should_explain_scoring self then
        (case delta of
           PyNum d \<Rightarrow>
             Inr (self\<lparr>explanation_table := explanation_table self @
                    [\<lparr>row_question = question, row_marked = marked_answer,
                      row_correct = correct_answer, row_verdict = question_verdict,
                      row_delta = d, row_score = score + d,
                      row_section = section_key question_marking_scheme,
                      row_streak = streaks question_marking_scheme question_verdict\<rparr>]\<rparr>)
         | _ \<Rightarrow> Inl TypeError)
      else Inr self)"

section \<open>evaluate_concatenated_response\<close>

text \<open>
  \<^verbatim>\<open>QUESTION_WISE_SCHEMES\<close> and \<^verbatim>\<open>default_marking_scheme\<close> hold references to the section
  objects of \<^verbatim>\<open>marking_scheme\<close>: a reference is the section's key, and the object is
  read from and written back to the configuration under that key.
  \<^verbatim>\<open>default_marking_scheme\<close> is a local variable that is bound only when the loop meets
  the default key; \<^verbatim>\<open>None\<close> is the unbound variable.
\<close>

fun question_wise_schemes_loop ::
  "(string \<times> SectionMarkingScheme) list \<Rightarrow> (string \<rightharpoonup> string) \<Rightarrow> string option \<Rightarrow>
   error + ((string \<rightharpoonup> string) \<times> string option)" where
  "question_wise_schemes_loop [] qws default_marking_scheme = Inr (qws, default_marking_scheme)"
| "question_wise_schemes_loop ((sk, section_marking_scheme) # rest) qws default_marking_scheme =
     (if sk = DEFAULT_SECTION_KEY then question_wise_schemes_loop rest qws (Some sk)
      else
        (case questions section_marking_scheme of
           None \<Rightarrow> Inl TypeError
         | Some qs \<Rightarrow>
             question_wise_schemes_loop rest (fold (\<lambda>q m. m(q \<mapsto> sk)) qs qws)
               default_marking_scheme))"

text \<open>
  The scoring loop (lines 280 to 298). The configuration is returned in every case,
  also beside an error, with the mutations made up to the raise.
\<close>

fun score_loop ::
  "response \<Rightarrow> (string \<rightharpoonup> string) \<Rightarrow> string option \<Rightarrow> nat \<Rightarrow> string list \<Rightarrow> EvaluationConfig \<Rightarrow> rat \<Rightarrow>
   EvaluationConfig \<times> (error + rat)" where
  "score_loop concatenated_response qws default_marking_scheme q_index [] cfg score =
     (cfg, Inr score)"
| "score_loop concatenated_response qws default_marking_scheme q_index (question # rest) cfg score =
     (if q_index \<ge> length (answers_in_order cfg) then (cfg, Inl IndexError)
      else
        (let correct_answer = answers_in_order cfg ! q_index
         in case map_of concatenated_response question of
              None \<Rightarrow> (cfg, Inl KeyError)
            | Some marked_answer \<Rightarrow>
                (case default_marking_scheme of
                   None \<Rightarrow> (cfg, Inl UnboundLocalError)
                 | Some dk \<Rightarrow>
                     (let sk = (case qws question of Some k \<Rightarrow> k | None \<Rightarrow> dk)
                      in case map_of (marking_scheme cfg) sk of
                           None \<Rightarrow> (cfg, Inl KeyError)
                         | Some question_marking_scheme \<Rightarrow>
                             (case match_answer question_marking_scheme marked_answer correct_answer of
                                Inl e \<Rightarrow> (cfg, Inl e)
                              | Inr (delta, question_verdict, scheme') \<Rightarrow>
                                  (let cfg1 = cfg\<lparr>marking_scheme :=
                                                 AList.update sk scheme' (marking_scheme cfg)\<rparr>
                                   in case conditionally_add_explanation cfg1 correct_answer delta
                                             marked_answer scheme' question_verdict question score of
                                        Inl e \<Rightarrow> (cfg1, Inl e)
                                      | Inr cfg2 \<Rightarrow>
                                          (case delta of
                                             PyNum d \<Rightarrow>
                                               score_loop concatenated_response qws
                                                 default_marking_scheme (q_index + 1) rest cfg2
                                                 (score + d)
                                           | _ \<Rightarrow> (cfg2, Inl TypeError))))))))"

text \<open>
  The part of \<^verbatim>\<open>evaluate_concatenated_response\<close> after the call of \<^verbatim>\<open>validate_all\<close>
  (lines 268 to 302). \<^verbatim>\<open>conditionally_print_explanation\<close> prints and changes nothing.
\<close>

definition score_concatenated_response ::
  "response \<Rightarrow> EvaluationConfig \<Rightarrow> EvaluationConfig \<times> (error + rat)" where
  "score_concatenated_response concatenated_response evaluation_config =
     (case question_wise_schemes_loop (marking_scheme evaluation_config) Map.empty None of
        Inl e \<Rightarrow> (evaluation_config, Inl e)
      | Inr (qws, default_marking_scheme) \<Rightarrow>
          score_loop concatenated_response qws default_marking_scheme 0
            (questions_in_order evaluation_config) evaluation_config 0)"

definition evaluate_concatenated_response ::
  "response \<Rightarrow> EvaluationConfig \<Rightarrow> EvaluationConfig \<times> (error + rat)" where
  "evaluate_concatenated_response concatenated_response evaluation_config =
     (case validate_all evaluation_config concatenated_response of
        Inl e \<Rightarrow> (evaluation_config, Inl e)
      | Inr u \<Rightarrow> score_concatenated_response concatenated_response evaluation_config)"

section \<open>Vocabulary of the claims and example inputs\<close>

text \<open>
  The question-id sets of the non-default sections, in the order of the marking scheme.
\<close>

definition non_default_question_sets :: "EvaluationConfig \<Rightarrow> string set list" where
  "non_default_question_sets cfg =
     map (\<lambda>(sk, section_scheme). case questions section_scheme of None \<Rightarrow> {} | Some qs \<Rightarrow> set qs)
       (filter (\<lambda>(sk, section_scheme). sk \<noteq> DEFAULT_SECTION_KEY) (marking_scheme cfg))"

text \<open>The marking rule \<^verbatim>\<open>{correct: 1, incorrect: -0.25, unmarked: 0}\<close>.\<close>

definition plain_marking :: "verdict \<rightharpoonup> pyval" where
  "plain_marking = [Correct \<mapsto> PyNum 1, Incorrect \<mapsto> PyNum (- 1 / 4), Unmarked \<mapsto> PyNum 0]"

text \<open>
  An evaluation file with the answer key q1: A, q2: B and the default section alone, and
  the configuration the constructor builds from it.
\<close>

definition default_only_json :: evaluation_json where
  "default_only_json =
     \<lparr>json_should_explain_scoring = None,
      json_questions_in_order = [''q1'', ''q2''],
      json_answers_in_order = [''A'', ''B''],
      json_marking_scheme =
        [(DEFAULT_SECTION_KEY,
          \<lparr>questions_field = None, marking_field = None, verdict_fields = plain_marking\<rparr>)]\<rparr>"

definition default_section :: SectionMarkingScheme where
  "default_section =
     \<lparr>empty_val = '''', section_key = DEFAULT_SECTION_KEY, streaks = (\<lambda>v. 0),
      questions = None, marking = plain_marking\<rparr>"

definition default_only_config :: EvaluationConfig where
  "default_only_config =
     \<lparr>should_explain_scoring = False, explanation_table = [],
      questions_in_order = [''q1'', ''q2''], answers_in_order = [''A'', ''B''],
      marking_scheme = [(DEFAULT_SECTION_KEY, default_section)]\<rparr>"

text \<open>
  The same answer key with two explicit sections, S1 for q1 and S2 for q2, beside the
  default section.
\<close>

definition plain_section :: "string \<Rightarrow> string list \<Rightarrow> SectionMarkingScheme" where
  "plain_section sk qs =
     \<lparr>empty_val = '''', section_key = sk, streaks = (\<lambda>v. 0),
      questions = Some qs, marking = plain_marking\<rparr>"

definition sectioned_json :: evaluation_json where
  "sectioned_json =
     \<lparr>json_should_explain_scoring = None,
      json_questions_in_order = [''q1'', ''q2''],
      json_answers_in_order = [''A'', ''B''],
      json_marking_scheme =
        [(''S1'', \<lparr>questions_field = Some [''q1''], marking_field = Some plain_marking,
                   verdict_fields = Map.empty\<rparr>),
         (''S2'', \<lparr>questions_field = Some [''q2''], marking_field = Some plain_marking,
                   verdict_fields = Map.empty\<rparr>),
         (DEFAULT_SECTION_KEY,
          \<lparr>questions_field = None, marking_field = None, verdict_fields = plain_marking\<rparr>)]\<rparr>"

definition sectioned_config :: EvaluationConfig where
  "sectioned_config =
     \<lparr>should_explain_scoring = False, explanation_table = [],
      questions_in_order = [''q1'', ''q2''], answers_in_order = [''A'', ''B''],
      marking_scheme =
        [(''S1'', plain_section ''S1'' [''q1'']), (''S2'', plain_section ''S2'' [''q2'']),
         (DEFAULT_SECTION_KEY, default_section)]\<rparr>"

text \<open>
  A section whose rule for incorrect answers is the list 0, -1, -2 in the evaluation
  file, and the section the constructor builds from it.
\<close>

definition streak_marking_json :: "verdict \<rightharpoonup> pyval" where
  "streak_marking_json =
     [Correct \<mapsto> PyNum 1, Incorrect \<mapsto> PyList [PyNum 0, PyNum (- 1), PyNum (- 2)],
      Unmarked \<mapsto> PyNum 0]"

definition streak_section_json :: section_json where
  "streak_section_json =
     \<lparr>questions_field = Some [''q1..4''], marking_field = Some streak_marking_json,
      verdict_fields = Map.empty\<rparr>"

definition streak_section :: SectionMarkingScheme where
  "streak_section =
     \<lparr>empty_val = '''', section_key = ''S1'', streaks = (\<lambda>v. 0),
      questions = Some [''q1'', ''q2'', ''q3'', ''q4''],
      marking = [Correct \<mapsto> PyNum 1,
                 Incorrect \<mapsto> PyMapObject [PyNum 0, PyNum (- 1), PyNum (- 2)],
                 Unmarked \<mapsto> PyNum 0]\<rparr>"

text \<open>A section object whose \<^verbatim>\<open>marking\<close> holds a genuine list for incorrect answers.\<close>

definition schedule_section :: SectionMarkingScheme where
  "schedule_section =
     \<lparr>empty_val = '''', section_key = ''S1'', streaks = (\<lambda>v. 0),
      questions = Some [''q1'', ''q2'', ''q3'', ''q4''],
      marking = streak_marking_json\<rparr>"

text \<open>
  Three malformed variants of the two-section configuration: S1 and S2 both hold q2; the
  answer key lacks q2; and the default section is missing.
\<close>

definition overlapping_config :: EvaluationConfig where
  "overlapping_config =
     sectioned_config\<lparr>marking_scheme :=
       [(''S1'', plain_section ''S1'' [''q1'', ''q2'']), (''S2'', plain_section ''S2'' [''q2''])]\<rparr>"

definition short_key_config :: EvaluationConfig where
  "short_key_config = sectioned_config\<lparr>questions_in_order := [''q1''], answers_in_order := [''A'']\<rparr>"

definition no_default_config :: EvaluationConfig where
  "no_default_config =
     sectioned_config\<lparr>marking_scheme :=
       [(''S1'', plain_section ''S1'' [''q1'']), (''S2'', plain_section ''S2'' [''q2''])]\<rparr>"

text \<open>
  A response with the two answer-key ids and one further id, the only kind of response
  that passes the response check of \<^verbatim>\<open>validate_all\<close>.
\<close>

definition wide_response :: response where
  "wide_response = [(''q1'', ''A''), (''q2'', ''C''), (''roll'', ''17'')]"

text \<open>
  A marking scheme with every streak counter set to 0: what is left of it when the
  counters are disregarded. Two configurations are the same up to streaks and rows when
  they differ at most in the streak counters of their sections and in rows added at
  the end of the explanation table, the latter only when explanations are switched on.
\<close>

definition without_streaks ::
  "(string \<times> SectionMarkingScheme) list \<Rightarrow> (string \<times> SectionMarkingScheme) list" where
  "without_streaks ms = map (\<lambda>(sk, s). (sk, s\<lparr>streaks := (\<lambda>v. 0)\<rparr>)) ms"

definition same_up_to_streaks_and_rows :: "EvaluationConfig \<Rightarrow> EvaluationConfig \<Rightarrow> bool" where
  "same_up_to_streaks_and_rows cfg cfg' =
     (questions_in_order cfg' = questions_in_order cfg \<and>
      answers_in_order cfg' = answers_in_order cfg \<and>
      should_explain_scoring cfg' = should_explain_scoring cfg \<and>
      without_streaks (marking_scheme cfg') = without_streaks (marking_scheme cfg) \<and>
      (\<exists>rows. explanation_table cfg' = explanation_table cfg @ rows) \<and>
      (\<not> should_explain_scoring cfg \<longrightarrow> explanation_table cfg' = explanation_table cfg))"

text \<open>The streak counters of the sections, in the order of the marking scheme.\<close>

definition streak_counters :: "EvaluationConfig \<Rightarrow> (string \<times> nat \<times> nat \<times> nat) list" where
  "streak_counters cfg =
     map (\<lambda>(sk, s). (sk, streaks s Correct, streaks s Incorrect, streaks s Unmarked))
       (marking_scheme cfg)"

text \<open>The two-section configuration with \<^verbatim>\<open>should_explain_scoring\<close> switched on.\<close>

definition explained_json :: evaluation_json where
  "explained_json = sectioned_json\<lparr>json_should_explain_scoring := Some True\<rparr>"

definition explained_config :: EvaluationConfig where
  "explained_config = sectioned_config\<lparr>should_explain_scoring := True\<rparr>"

text \<open>
  Two rules that give half a mark for an incorrect answer: once as the string
  \<^verbatim>\<open>"1/2"\<close>, once as the number \<^verbatim>\<open>0.5\<close>.
\<close>

definition half_mark_string_marking :: "verdict \<rightharpoonup> pyval" where
  "half_mark_string_marking =
     [Correct \<mapsto> PyNum 1, Incorrect \<mapsto> PyStr ''1/2'', Unmarked \<mapsto> PyNum 0]"

definition half_mark_number_marking :: "verdict \<rightharpoonup> pyval" where
  "half_mark_number_marking =
     [Correct \<mapsto> PyNum 1, Incorrect \<mapsto> PyNum (1 / 2), Unmarked \<mapsto> PyNum 0]"

text \<open>
  The streak counters as they are carried from one scored question to the next, and
  from one pass to the next. \<^verbatim>\<open>commit_streak v st\<close> are the counters after one answer
  with verdict \<^verbatim>\<open>v\<close> when they were \<^verbatim>\<open>st\<close> before it. \<^verbatim>\<open>scoring_section cfg q\<close> is the
  key of the section that the lookup of line 283 returns for question \<^verbatim>\<open>q\<close>, or
  \<^verbatim>\<open>None\<close> when the lookup raises. \<^verbatim>\<open>verdicts_of scorer resp sk s qas\<close> are the
  verdicts, in order, of those question and answer pairs of \<^verbatim>\<open>qas\<close> that section
  \<^verbatim>\<open>sk\<close> scores. \<^verbatim>\<open>counters_follow scorer resp qas ms ms'\<close> says that every section
  of the marking scheme \<^verbatim>\<open>ms\<close> is found in \<^verbatim>\<open>ms'\<close> under its key, with the counters
  it had in \<^verbatim>\<open>ms\<close> advanced by exactly the verdicts of its questions in \<^verbatim>\<open>qas\<close>
  (the keys of a dictionary are distinct, so the lookup by key reaches every section).
\<close>

definition commit_streak :: "verdict \<Rightarrow> (verdict \<Rightarrow> nat) \<Rightarrow> (verdict \<Rightarrow> nat)" where
  "commit_streak v st = (\<lambda>x. 0)(v := st v + 1)"

definition scoring_section_of ::
  "(string \<rightharpoonup> string) \<Rightarrow> string option \<Rightarrow> string \<Rightarrow> string option" where
  "scoring_section_of qws default_marking_scheme question =
     (case default_marking_scheme of
        None \<Rightarrow> None
      | Some dk \<Rightarrow> Some (case qws question of Some k \<Rightarrow> k | None \<Rightarrow> dk))"

definition scoring_section :: "EvaluationConfig \<Rightarrow> string \<Rightarrow> string option" where
  "scoring_section cfg question =
     (case question_wise_schemes_loop (marking_scheme cfg) Map.empty None of
        Inl e \<Rightarrow> None
      | Inr (qws, default_marking_scheme) \<Rightarrow>
          scoring_section_of qws default_marking_scheme question)"

definition verdicts_of ::
  "(string \<Rightarrow> string option) \<Rightarrow> response \<Rightarrow> string \<Rightarrow> SectionMarkingScheme \<Rightarrow>
   (string \<times> string) list \<Rightarrow> verdict list" where
  "verdicts_of scorer resp sk s question_answers =
     map (\<lambda>(q, a). get_question_verdict s (case map_of resp q of None \<Rightarrow> [] | Some m \<Rightarrow> m) a)
       (filter (\<lambda>(q, a). scorer q = Some sk) question_answers)"

definition counters_follow ::
  "(string \<Rightarrow> string option) \<Rightarrow> response \<Rightarrow> (string \<times> string) list \<Rightarrow>
   (string \<times> SectionMarkingScheme) list \<Rightarrow> (string \<times> SectionMarkingScheme) list \<Rightarrow> bool" where
  "counters_follow scorer resp question_answers ms ms' =
     (\<forall>sk s. map_of ms sk = Some s \<longrightarrow>
        (\<exists>s'. map_of ms' sk = Some s' \<and> empty_val s' = empty_val s \<and>
           streaks s' =
             fold commit_streak (verdicts_of scorer resp sk s question_answers) (streaks s)))"

section \<open>Range tokens\<close>

lemma takeWhile_app_stop:
  "list_all P xs \<Longrightarrow> (ys = [] \<or> \<not> P (hd ys)) \<Longrightarrow> takeWhile P (xs @ ys) = xs"
  by (induction xs) (auto simp: takeWhile_eq_Nil_iff neq_Nil_conv)

lemma dropWhile_app_stop:
  "list_all P xs \<Longrightarrow> (ys = [] \<or> \<not> P (hd ys)) \<Longrightarrow> dropWhile P (xs @ ys) = ys"
  by (induction xs) (auto simp: dropWhile_eq_self_iff neq_Nil_conv)

lemma digit_not_prefix_char: "is_digit c \<Longrightarrow> \<not> is_prefix_char c"
  by (simp add: is_prefix_char_def)

lemma digit_not_dot: "is_digit c \<Longrightarrow> \<not> is_dot c"
  by (auto simp: is_digit_def is_dot_def)

lemma dot_not_digit: "is_dot c \<Longrightarrow> \<not> is_digit c"
  by (auto simp: is_digit_def is_dot_def)

lemma hd_digits: "a \<noteq> [] \<Longrightarrow> list_all is_digit a \<Longrightarrow> is_digit (hd (a @ r))"
  by (cases a) auto

text \<open>
  On a token of the shape prefix, digits, two or three dots, digits, the pattern matches
  at the first position and its three groups are the three parts.
\<close>

lemma match_at_range:
  assumes p: "p \<noteq> []" "list_all is_prefix_char p"
    and a: "a \<noteq> []" "list_all is_digit a"
    and b: "b \<noteq> []" "list_all is_digit b"
    and d: "dots = ''..'' \<or> dots = ''...''"
  shows "match_at (p @ a @ dots @ b) = Some (p, a, b)"
proof -
  have da: "is_digit (hd (a @ dots @ b))" using a by (rule hd_digits)
  have db: "is_digit (hd b)" using hd_digits [OF b, of "[]"] by simp
  have dd: "list_all is_dot dots" "dots \<noteq> []" "is_dot (hd (dots @ b))"
    and ld: "length dots = 2 \<or> length dots = 3"
    using d by (auto simp: is_dot_def)
  have 1: "takeWhile is_prefix_char (p @ a @ dots @ b) = p"
    using p da by (simp add: takeWhile_app_stop digit_not_prefix_char)
  have 2: "dropWhile is_prefix_char (p @ a @ dots @ b) = a @ dots @ b"
    using p da by (simp add: dropWhile_app_stop digit_not_prefix_char)
  have 3: "takeWhile is_digit (a @ dots @ b) = a"
    using a dd by (simp add: takeWhile_app_stop dot_not_digit)
  have 4: "dropWhile is_digit (a @ dots @ b) = dots @ b"
    using a dd by (simp add: dropWhile_app_stop dot_not_digit)
  have 5: "takeWhile is_dot (dots @ b) = dots"
    using dd db b by (simp add: takeWhile_app_stop digit_not_dot)
  have 6: "dropWhile is_dot (dots @ b) = b"
    using dd db b by (simp add: dropWhile_app_stop digit_not_dot)
  have 7: "takeWhile is_digit b = b"
    using b takeWhile_app_stop [of is_digit b "[]"] by simp
  show ?thesis
    unfolding match_at_def Let_def 1 2 3 4 5 6 7 using p a b ld by simp
qed

lemma findall_first_range:
  assumes "p \<noteq> []" "list_all is_prefix_char p" "a \<noteq> []" "list_all is_digit a"
    "b \<noteq> []" "list_all is_digit b" "dots = ''..'' \<or> dots = ''...''"
  shows "findall_first (p @ a @ dots @ b) = Some (p, a, b)"
proof -
  obtain c cs where s: "p @ a @ dots @ b = c # cs"
    using assms(1) by (cases p) auto
  show ?thesis
    unfolding s using match_at_range [OF assms] s by simp
qed

lemma dot_in_range: "dots = ''..'' \<or> dots = ''...'' \<Longrightarrow> CHR ''.'' \<in> set (p @ a @ dots @ b)"
  by auto

text \<open>
  Claim C8. \<^verbatim>\<open>parse_question_string("Q1...5")\<close> is the list Q1, Q2, Q3, Q4, Q5; and every
  range token (a non-empty prefix without dots and digits, a start number, two or three
  dots, an end number) whose start is greater than or equal to its end makes
  \<^verbatim>\<open>parse_question_string\<close> raise the range error instead of returning a list.
\<close>

theorem parse_question_string_range:
  "parse_question_string ''Q1...5'' = Inr [''Q1'', ''Q2'', ''Q3'', ''Q4'', ''Q5''] \<and>
   (\<forall>p a dots b.
      p \<noteq> [] \<and> list_all is_prefix_char p \<and> a \<noteq> [] \<and> list_all is_digit a \<and>
      b \<noteq> [] \<and> list_all is_digit b \<and> (dots = ''..'' \<or> dots = ''...'') \<and>
      int_of_digits a \<ge> int_of_digits b \<longrightarrow>
      parse_question_string (p @ a @ dots @ b) =
        Inl (RangeDefinitionError (p @ a @ dots @ b) (int_of_digits a) (int_of_digits b)))"
proof (intro conjI allI impI)
  show "parse_question_string ''Q1...5'' = Inr [''Q1'', ''Q2'', ''Q3'', ''Q4'', ''Q5'']"
    by code_simp
next
  fix p a dots b
  assume h: "p \<noteq> [] \<and> list_all is_prefix_char p \<and> a \<noteq> [] \<and> list_all is_digit a \<and>
      b \<noteq> [] \<and> list_all is_digit b \<and> (dots = ''..'' \<or> dots = ''...'') \<and>
      int_of_digits a \<ge> int_of_digits b"
  then have f: "findall_first (p @ a @ dots @ b) = Some (p, a, b)"
    by (intro findall_first_range) simp_all
  have d: "CHR ''.'' \<in> set (p @ a @ dots @ b)"
    using h by (intro dot_in_range) simp
  show "parse_question_string (p @ a @ dots @ b) =
        Inl (RangeDefinitionError (p @ a @ dots @ b) (int_of_digits a) (int_of_digits b))"
    unfolding parse_question_string_def using f d h by simp
qed

theorem parse_question_string_range_witness:
  "''Q'' \<noteq> [] \<and> list_all is_prefix_char ''Q'' \<and> ''5'' \<noteq> [] \<and> list_all is_digit ''5'' \<and>
   ''1'' \<noteq> [] \<and> list_all is_digit ''1'' \<and> int_of_digits ''5'' \<ge> int_of_digits ''1'' \<and>
   parse_question_string ''Q5...1'' = Inl (RangeDefinitionError ''Q5...1'' 5 1)"
proof -
  have h: "''Q'' \<noteq> [] \<and> list_all is_prefix_char ''Q'' \<and> ''5'' \<noteq> [] \<and> list_all is_digit ''5'' \<and>
      ''1'' \<noteq> [] \<and> list_all is_digit ''1'' \<and> (''...'' = ''..'' \<or> ''...'' = ''...'') \<and>
      int_of_digits ''5'' \<ge> int_of_digits ''1''"
    by (simp add: is_prefix_char_def is_digit_def is_dot_def int_of_digits_def digit_val_def)
  have v: "int_of_digits ''5'' = 5" "int_of_digits ''1'' = 1"
    by (simp_all add: int_of_digits_def digit_val_def)
  from parse_question_string_range
  have "parse_question_string (''Q'' @ ''5'' @ ''...'' @ ''1'') =
        Inl (RangeDefinitionError (''Q'' @ ''5'' @ ''...'' @ ''1'')
               (int_of_digits ''5'') (int_of_digits ''1''))"
    using h by blast
  then show ?thesis using h v by simp
qed

section \<open>The example inputs are what the constructors build\<close>

lemma plain_marking_parses:
  "parse_scheme_marking sk plain_marking = ([], Inr plain_marking)"
  by (simp add: parse_scheme_marking_def MARKING_VERDICT_TYPES_def plain_marking_def)

lemma default_only_config_built:
  "EvaluationConfig_init default_only_json '''' = ([], Inr default_only_config)"
  by (simp add: EvaluationConfig_init_def default_only_json_def default_only_config_def
      default_section_def parse_questions_in_order_def parse_questions_def
      parse_question_string_def SectionMarkingScheme_init_def plain_marking_parses)

lemma sectioned_config_built:
  "EvaluationConfig_init sectioned_json '''' = ([], Inr sectioned_config)"
  by (simp add: EvaluationConfig_init_def sectioned_json_def sectioned_config_def
      default_section_def plain_section_def parse_questions_in_order_def parse_questions_def
      parse_question_string_def SectionMarkingScheme_init_def plain_marking_parses
      DEFAULT_SECTION_KEY_def)

lemma streak_tokens: "parse_questions ''S1'' [''q1..4''] = Inr [''q1'', ''q2'', ''q3'', ''q4'']"
  by code_simp

lemma streak_marking_parses:
  "parse_scheme_marking ''S1'' streak_marking_json = ([], Inr (marking streak_section))"
  by (simp add: parse_scheme_marking_def MARKING_VERDICT_TYPES_def streak_marking_json_def
      streak_section_def)

lemma streak_section_built:
  "SectionMarkingScheme_init ''S1'' streak_section_json '''' = ([], Inr streak_section)"
  by (simp add: SectionMarkingScheme_init_def streak_section_json_def DEFAULT_SECTION_KEY_def
      streak_tokens streak_marking_parses) (simp add: streak_section_def)

section \<open>Streaks\<close>

lemma update_streaks_for_verdict_eq:
  "update_streaks_for_verdict s v = s\<lparr>streaks := (\<lambda>x. 0)(v := streaks s v + 1)\<rparr>"
proof -
  have "fold (\<lambda>verdict_type st. if v = verdict_type then st(verdict_type := streaks s v + 1)
                                 else st(verdict_type := 0))
          MARKING_VERDICT_TYPES (streaks s) = (\<lambda>x. 0)(v := streaks s v + 1)"
  proof
    fix x show "fold (\<lambda>verdict_type st. if v = verdict_type then st(verdict_type := streaks s v + 1)
                                 else st(verdict_type := 0))
          MARKING_VERDICT_TYPES (streaks s) x = ((\<lambda>x. 0)(v := streaks s v + 1)) x"
      by (cases v; cases x) (simp_all add: MARKING_VERDICT_TYPES_def)
  qed
  then show ?thesis by (simp add: update_streaks_for_verdict_def)
qed

text \<open>
  Claim C6. \<^verbatim>\<open>match_answer\<close> reads the streak counter of the verdict before it updates
  any counter: whenever the rule of the verdict is present and is not the empty list, the
  delta is the constant, or the entry of the schedule at the counter as it stood before
  the call (clamped to the last entry; a counter of zero gives the first entry), and the
  section returned differs from the given one only in its counters: the counter of the
  verdict is the old one plus one, and the two others are 0.
\<close>

theorem match_answer_peek_then_commit:
  assumes "marking s (get_question_verdict s marked correct) = Some mk" and "mk \<noteq> PyList []"
  shows "match_answer s marked correct =
           Inr (case mk of
                  PyList xs \<Rightarrow> xs ! min (streaks s (get_question_verdict s marked correct)) (length xs - 1)
                | _ \<Rightarrow> mk,
                get_question_verdict s marked correct,
                s\<lparr>streaks := (\<lambda>x. 0)(get_question_verdict s marked correct :=
                     streaks s (get_question_verdict s marked correct) + 1)\<rparr>)"
  using assms
  by (cases mk) (simp_all add: match_answer_def update_streaks_for_verdict_eq Let_def)

theorem match_answer_peek_then_commit_witness:
  "marking (schedule_section\<lparr>streaks := (\<lambda>x. 0)(Incorrect := 1)\<rparr>)
      (get_question_verdict (schedule_section\<lparr>streaks := (\<lambda>x. 0)(Incorrect := 1)\<rparr>) ''B'' ''A'')
     = Some (PyList [PyNum 0, PyNum (- 1), PyNum (- 2)]) \<and>
   PyList [PyNum 0, PyNum (- 1), PyNum (- 2)] \<noteq> PyList [] \<and>
   match_answer (schedule_section\<lparr>streaks := (\<lambda>x. 0)(Incorrect := 1)\<rparr>) ''B'' ''A'' =
     Inr (PyNum (- 1), Incorrect, schedule_section\<lparr>streaks := (\<lambda>x. 0)(Incorrect := 2)\<rparr>) \<and>
   match_answer schedule_section ''B'' ''A'' =
     Inr (PyNum 0, Incorrect, schedule_section\<lparr>streaks := (\<lambda>x. 0)(Incorrect := 1)\<rparr>)"
proof -
  let ?s = "schedule_section\<lparr>streaks := (\<lambda>x. 0)(Incorrect := 1)\<rparr>"
  have v: "get_question_verdict ?s ''B'' ''A'' = Incorrect"
    "get_question_verdict schedule_section ''B'' ''A'' = Incorrect"
    by (simp_all add: get_question_verdict_def schedule_section_def)
  have m: "marking ?s Incorrect = Some (PyList [PyNum 0, PyNum (- 1), PyNum (- 2)])"
    "marking schedule_section Incorrect = Some (PyList [PyNum 0, PyNum (- 1), PyNum (- 2)])"
    by (simp_all add: schedule_section_def streak_marking_json_def)
  have n: "PyList [PyNum 0, PyNum (- 1), PyNum (- 2)] \<noteq> PyList []" by simp
  have z: "streaks schedule_section = (\<lambda>x. 0)" by (simp add: schedule_section_def)
  show ?thesis
    using match_answer_peek_then_commit [of ?s "''B''" "''A''", unfolded v, OF m(1) n]
      match_answer_peek_then_commit [of schedule_section "''B''" "''A''", unfolded v, OF m(2) n]
      v m n z
    by (simp add: numeral_2_eq_2)
qed

section \<open>Overlapping tokens\<close>

lemma parse_question_string_no_overlap_error:
  "parse_question_string t \<noteq> Inl (QuestionOverlapError a b c)"
  by (simp add: parse_question_string_def Let_def split: option.splits prod.splits)

lemma parse_questions_loop_no_overlap_error:
  "parse_questions_loop sk tokens {} parsed rest \<noteq> Inl (QuestionOverlapError a b c)"
proof (induction rest arbitrary: parsed)
  case Nil
  show ?case by simp
next
  case (Cons t rest)
  show ?case
  proof (cases "parse_question_string t")
    case (Inl e)
    then show ?thesis using parse_question_string_no_overlap_error [of t a b c] by auto
  next
    case (Inr arr)
    then show ?thesis using Cons.IH [of "parsed @ arr"] by simp
  qed
qed

lemma parse_questions_loop_concat:
  "list_all (\<lambda>t. parse_question_string t = Inr (f t)) rest \<Longrightarrow>
   parse_questions_loop sk tokens {} parsed rest = Inr (parsed @ concat (map f rest))"
  by (induction rest arbitrary: parsed) simp_all

text \<open>
  What the loop does instead: when every token parses, the result is the concatenation
  of the expansions, whether or not they overlap.
\<close>

lemma parse_questions_concat:
  "list_all (\<lambda>t. parse_question_string t = Inr (f t)) tokens \<Longrightarrow>
   parse_questions sk tokens = Inr (concat (map f tokens))"
  by (simp add: parse_questions_def parse_questions_loop_concat)

text \<open>
  Claim C4. The source never adds to \<^verbatim>\<open>questions_set\<close>, so the overlap test of
  \<^verbatim>\<open>parse_questions\<close> compares every expansion with the empty set: tokens that expand to
  intersecting id sets are accepted and the result repeats the shared ids, and
  \<^verbatim>\<open>parse_questions\<close> raises the overlap error on no input at all.
\<close>

theorem parse_questions_keeps_overlaps:
  "parse_questions ''S1'' [''q1..3'', ''q2''] = Inr [''q1'', ''q2'', ''q3'', ''q2''] \<and>
   parse_questions ''S1'' [''q1'', ''q1''] = Inr [''q1'', ''q1''] \<and>
   (\<forall>sk tokens t k l. parse_questions sk tokens \<noteq> Inl (QuestionOverlapError t k l))"
proof (intro conjI allI)
  show "parse_questions ''S1'' [''q1..3'', ''q2''] = Inr [''q1'', ''q2'', ''q3'', ''q2'']"
    by code_simp
  show "parse_questions ''S1'' [''q1'', ''q1''] = Inr [''q1'', ''q1'']"
    by code_simp
  fix sk tokens t k l
  show "parse_questions sk tokens \<noteq> Inl (QuestionOverlapError t k l)"
    unfolding parse_questions_def by (rule parse_questions_loop_no_overlap_error)
qed

section \<open>The streak schedule of a constructed section\<close>

text \<open>
  Claim C3. A section built from a rule whose incorrect entry is the list 0, -1, -2 holds
  the iterator of \<^verbatim>\<open>map\<close> in its \<^verbatim>\<open>marking\<close>, not a list; the test
  \<^verbatim>\<open>type(marking) == list\<close> of \<^verbatim>\<open>match_answer\<close> fails on it, and every incorrect answer
  gets the iterator itself as its delta, whatever the streak counter is.
\<close>

theorem constructed_schedule_is_not_a_list:
  "SectionMarkingScheme_init ''S1'' streak_section_json '''' = ([], Inr streak_section) \<and>
   match_answer streak_section ''B'' ''A'' =
     Inr (PyMapObject [PyNum 0, PyNum (- 1), PyNum (- 2)], Incorrect,
          streak_section\<lparr>streaks := (\<lambda>x. 0)(Incorrect := 1)\<rparr>) \<and>
   match_answer (streak_section\<lparr>streaks := (\<lambda>x. 0)(Incorrect := 1)\<rparr>) ''B'' ''A'' =
     Inr (PyMapObject [PyNum 0, PyNum (- 1), PyNum (- 2)], Incorrect,
          streak_section\<lparr>streaks := (\<lambda>x. 0)(Incorrect := 2)\<rparr>)"
proof (intro conjI)
  show "SectionMarkingScheme_init ''S1'' streak_section_json '''' = ([], Inr streak_section)"
    by (rule streak_section_built)
  have z: "streaks streak_section = (\<lambda>x. 0)" by (simp add: streak_section_def)
  have v: "get_question_verdict streak_section ''B'' ''A'' = Incorrect"
    "get_question_verdict (streak_section\<lparr>streaks := (\<lambda>x. 0)(Incorrect := 1)\<rparr>) ''B'' ''A'' = Incorrect"
    by (simp_all add: get_question_verdict_def streak_section_def)
  have m: "marking streak_section Incorrect = Some (PyMapObject [PyNum 0, PyNum (- 1), PyNum (- 2)])"
    by (simp add: streak_section_def)
  show "match_answer streak_section ''B'' ''A'' =
     Inr (PyMapObject [PyNum 0, PyNum (- 1), PyNum (- 2)], Incorrect,
          streak_section\<lparr>streaks := (\<lambda>x. 0)(Incorrect := 1)\<rparr>)"
    using v m z by (simp add: match_answer_def update_streaks_for_verdict_eq Let_def)
  show "match_answer (streak_section\<lparr>streaks := (\<lambda>x. 0)(Incorrect := 1)\<rparr>) ''B'' ''A'' =
     Inr (PyMapObject [PyNum 0, PyNum (- 1), PyNum (- 2)], Incorrect,
          streak_section\<lparr>streaks := (\<lambda>x. 0)(Incorrect := 2)\<rparr>)"
    using v m
    by (simp add: match_answer_def update_streaks_for_verdict_eq Let_def numeral_2_eq_2)
qed

section \<open>The response check of validate_all\<close>

text \<open>
  Claim C1. The response check of \<^verbatim>\<open>validate_all\<close> raises when the answer-key ids are a
  superset of the response ids. A response that has exactly the answer-key ids is
  rejected, and a response that lacks an answer-key id is accepted as soon as it holds
  one id outside the answer key.
\<close>

theorem validate_all_rejects_exact_response:
  "EvaluationConfig_init sectioned_json '''' = ([], Inr sectioned_config) \<and>
   validate_all sectioned_config [(''q1'', ''A''), (''q2'', ''B'')] = Inl ResponseCoverageError \<and>
   validate_all sectioned_config [(''q1'', ''A''), (''q3'', ''B'')] = Inr ()"
proof (intro conjI)
  show "EvaluationConfig_init sectioned_json '''' = ([], Inr sectioned_config)"
    by (rule sectioned_config_built)
  show "validate_all sectioned_config [(''q1'', ''A''), (''q2'', ''B'')] = Inl ResponseCoverageError"
    by code_simp
  show "validate_all sectioned_config [(''q1'', ''A''), (''q3'', ''B'')] = Inr ()"
    by code_simp
qed

section \<open>The default section alone\<close>

lemma default_only_validation:
  "validate_all default_only_config [(''q1'', ''A''), (''q2'', ''C'')] = Inl MissingMarkingSchemeError"
  by code_simp

text \<open>
  Claim C2, as the code has it. With the answer key q1: A, q2: B, the default section
  alone and the response q1: A, q2: C, \<^verbatim>\<open>evaluate_concatenated_response\<close> returns no
  score: \<^verbatim>\<open>validate_all\<close> raises, since the non-default sections cover none of the
  answer-key ids. The scoring part of the function, run on the same input, adds up to
  0.75.
\<close>

theorem default_only_is_rejected:
  "EvaluationConfig_init default_only_json '''' = ([], Inr default_only_config) \<and>
   evaluate_concatenated_response [(''q1'', ''A''), (''q2'', ''C'')] default_only_config =
     (default_only_config, Inl MissingMarkingSchemeError) \<and>
   snd (score_concatenated_response [(''q1'', ''A''), (''q2'', ''C'')] default_only_config) = Inr (3 / 4)"
proof (intro conjI)
  show "EvaluationConfig_init default_only_json '''' = ([], Inr default_only_config)"
    by (rule default_only_config_built)
  show "evaluate_concatenated_response [(''q1'', ''A''), (''q2'', ''C'')] default_only_config =
     (default_only_config, Inl MissingMarkingSchemeError)"
    by (simp add: evaluate_concatenated_response_def default_only_validation)
  show "snd (score_concatenated_response [(''q1'', ''A''), (''q2'', ''C'')] default_only_config) = Inr (3 / 4)"
    by code_simp
qed

text \<open>
  Claim C2 as stated fails: on that input the result of
  \<^verbatim>\<open>evaluate_concatenated_response\<close> is not the score 0.75.
\<close>

theorem default_only_score_counterexample:
  "EvaluationConfig_init default_only_json '''' = ([], Inr default_only_config) \<and>
   snd (evaluate_concatenated_response [(''q1'', ''A''), (''q2'', ''C'')] default_only_config) \<noteq> Inr (3 / 4)"
proof (intro conjI)
  show "EvaluationConfig_init default_only_json '''' = ([], Inr default_only_config)"
    by (rule default_only_config_built)
  show "snd (evaluate_concatenated_response [(''q1'', ''A''), (''q2'', ''C'')] default_only_config) \<noteq> Inr (3 / 4)"
    by (simp add: evaluate_concatenated_response_def default_only_validation)
qed

section \<open>The section loop of validate_all\<close>

lemma non_default_question_sets_Cons:
  "non_default_question_sets (cfg\<lparr>marking_scheme := (sk, s) # rest\<rparr>) =
     (if sk = DEFAULT_SECTION_KEY then non_default_question_sets (cfg\<lparr>marking_scheme := rest\<rparr>)
      else (case questions s of None \<Rightarrow> {} | Some qs \<Rightarrow> set qs) #
             non_default_question_sets (cfg\<lparr>marking_scheme := rest\<rparr>))"
  by (simp add: non_default_question_sets_def)

lemma section_questions_loop_sound:
  "section_questions_loop ms acc = Inr S \<Longrightarrow>
     S = acc \<union> \<Union>(set (non_default_question_sets (cfg\<lparr>marking_scheme := ms\<rparr>))) \<and>
     (\<forall>A\<in>set (non_default_question_sets (cfg\<lparr>marking_scheme := ms\<rparr>)). acc \<inter> A = {}) \<and>
     sorted_wrt (\<lambda>A B. A \<inter> B = {}) (non_default_question_sets (cfg\<lparr>marking_scheme := ms\<rparr>))"
proof (induction ms arbitrary: acc)
  case Nil
  then show ?case by (simp add: non_default_question_sets_def)
next
  case (Cons entry rest)
  obtain sk s where entry: "entry = (sk, s)" by (cases entry)
  show ?case
  proof (cases "sk = DEFAULT_SECTION_KEY")
    case True
    then show ?thesis
      using Cons.prems Cons.IH [of acc] by (simp add: entry non_default_question_sets_Cons)
  next
    case False
    from Cons.prems False obtain qs where qs: "questions s = Some qs"
      by (cases "questions s") (simp_all add: entry)
    from Cons.prems False qs have d: "acc \<inter> set qs = {}"
      and r: "section_questions_loop rest (acc \<union> set qs) = Inr S"
      by (simp_all add: entry Let_def split: if_splits)
    from Cons.IH [OF r] d show ?thesis
      by (simp add: entry False qs non_default_question_sets_Cons) blast
  qed
qed

lemma validate_all_Inr_iff:
  "validate_all cfg resp = Inr () \<longleftrightarrow>
     length (questions_in_order cfg) = length (answers_in_order cfg) \<and>
     section_questions_loop (marking_scheme cfg) {} = Inr (set (questions_in_order cfg)) \<and>
     \<not> set (map fst resp) \<subseteq> set (questions_in_order cfg)"
  by (auto simp: validate_all_def Let_def split: sum.splits if_splits)

lemma validate_all_sections:
  assumes "validate_all cfg resp = Inr ()"
  shows "sorted_wrt (\<lambda>A B. A \<inter> B = {}) (non_default_question_sets cfg)"
    and "\<Union>(set (non_default_question_sets cfg)) = set (questions_in_order cfg)"
proof -
  have l: "section_questions_loop (marking_scheme cfg) {} = Inr (set (questions_in_order cfg))"
    using assms by (simp add: validate_all_Inr_iff)
  have c: "cfg\<lparr>marking_scheme := marking_scheme cfg\<rparr> = cfg" by simp
  from section_questions_loop_sound [OF l, of cfg]
  show "sorted_wrt (\<lambda>A B. A \<inter> B = {}) (non_default_question_sets cfg)"
    and "\<Union>(set (non_default_question_sets cfg)) = set (questions_in_order cfg)"
    unfolding c by simp_all
qed

lemma validate_all_cases:
  "validate_all cfg resp = Inr () \<or> (\<exists>e. validate_all cfg resp = Inl e)"
  by (cases "validate_all cfg resp") auto

text \<open>
  Claim C5. A configuration on which \<^verbatim>\<open>validate_all\<close> succeeds has non-default sections
  whose question-id sets are pairwise disjoint and whose union is exactly the set of
  answer-key ids. Two overlapping non-default sections, an answer-key id that no
  non-default section covers, and an id of a non-default section that the answer key
  lacks each make \<^verbatim>\<open>validate_all\<close> raise; and when \<^verbatim>\<open>validate_all\<close> raises,
  \<^verbatim>\<open>evaluate_concatenated_response\<close> raises the same error with the configuration
  untouched, so nothing is scored.
\<close>

theorem validate_all_section_invariant:
  "(validate_all cfg resp = Inr () \<longrightarrow>
      (\<forall>i j. i < j \<and> j < length (non_default_question_sets cfg) \<longrightarrow>
         non_default_question_sets cfg ! i \<inter> non_default_question_sets cfg ! j = {}) \<and>
      \<Union>(set (non_default_question_sets cfg)) = set (questions_in_order cfg)) \<and>
   ((\<exists>i j. i < j \<and> j < length (non_default_question_sets cfg) \<and>
       non_default_question_sets cfg ! i \<inter> non_default_question_sets cfg ! j \<noteq> {}) \<longrightarrow>
      (\<exists>e. validate_all cfg resp = Inl e)) \<and>
   ((\<exists>q. q \<in> set (questions_in_order cfg) \<and> q \<notin> \<Union>(set (non_default_question_sets cfg))) \<longrightarrow>
      (\<exists>e. validate_all cfg resp = Inl e)) \<and>
   ((\<exists>q. q \<in> \<Union>(set (non_default_question_sets cfg)) \<and> q \<notin> set (questions_in_order cfg)) \<longrightarrow>
      (\<exists>e. validate_all cfg resp = Inl e)) \<and>
   (\<forall>e. validate_all cfg resp = Inl e \<longrightarrow>
      evaluate_concatenated_response resp cfg = (cfg, Inl e))"
proof -
  have ok: "(\<forall>i j. i < j \<and> j < length (non_default_question_sets cfg) \<longrightarrow>
         non_default_question_sets cfg ! i \<inter> non_default_question_sets cfg ! j = {}) \<and>
      \<Union>(set (non_default_question_sets cfg)) = set (questions_in_order cfg)"
    if "validate_all cfg resp = Inr ()"
    using validate_all_sections [OF that] by (simp add: sorted_wrt_iff_nth_less)
  have ev: "evaluate_concatenated_response resp cfg = (cfg, Inl e)"
    if "validate_all cfg resp = Inl e" for e
    using that by (simp add: evaluate_concatenated_response_def)
  show ?thesis
    using ok ev validate_all_cases [of cfg resp] by blast
qed


lemma ndqs_sectioned:
  "non_default_question_sets sectioned_config = [{''q1''}, {''q2''}]"
  "non_default_question_sets overlapping_config = [{''q1'', ''q2''}, {''q2''}]"
  "non_default_question_sets short_key_config = [{''q1''}, {''q2''}]"
  "non_default_question_sets default_only_config = []"
  "non_default_question_sets no_default_config = [{''q1''}, {''q2''}]"
  by (simp_all add: non_default_question_sets_def sectioned_config_def overlapping_config_def
      short_key_config_def default_only_config_def no_default_config_def plain_section_def
      DEFAULT_SECTION_KEY_def)

theorem validate_all_section_invariant_witness:
  "validate_all sectioned_config wide_response = Inr () \<and>
   non_default_question_sets sectioned_config ! 0 \<inter> non_default_question_sets sectioned_config ! 1 = {} \<and>
   \<Union>(set (non_default_question_sets sectioned_config)) = set (questions_in_order sectioned_config) \<and>
   non_default_question_sets overlapping_config ! 0 \<inter>
     non_default_question_sets overlapping_config ! 1 \<noteq> {} \<and>
   (\<exists>e. validate_all overlapping_config wide_response = Inl e) \<and>
   ''q1'' \<in> set (questions_in_order default_only_config) \<and>
   ''q1'' \<notin> \<Union>(set (non_default_question_sets default_only_config)) \<and>
   (\<exists>e. validate_all default_only_config wide_response = Inl e) \<and>
   ''q2'' \<in> \<Union>(set (non_default_question_sets short_key_config)) \<and>
   ''q2'' \<notin> set (questions_in_order short_key_config) \<and>
   (\<exists>e. validate_all short_key_config wide_response = Inl e) \<and>
   validate_all default_only_config wide_response = Inl MissingMarkingSchemeError \<and>
   evaluate_concatenated_response wide_response default_only_config =
     (default_only_config, Inl MissingMarkingSchemeError)"
proof -
  have a: "validate_all sectioned_config wide_response = Inr ()" by code_simp
  have b: "(0::nat) < 1 \<and> 1 < length (non_default_question_sets overlapping_config) \<and>
      non_default_question_sets overlapping_config ! 0 \<inter>
      non_default_question_sets overlapping_config ! 1 \<noteq> {}"
    by (simp add: ndqs_sectioned)
  have l: "(0::nat) < 1 \<and> 1 < length (non_default_question_sets sectioned_config)"
    by (simp add: ndqs_sectioned)
  have c: "''q1'' \<in> set (questions_in_order default_only_config) \<and>
      ''q1'' \<notin> \<Union>(set (non_default_question_sets default_only_config))"
    by (rule conjI) (simp add: default_only_config_def, simp add: ndqs_sectioned)
  have d: "''q2'' \<in> \<Union>(set (non_default_question_sets short_key_config)) \<and>
      ''q2'' \<notin> set (questions_in_order short_key_config)"
    by (rule conjI) (simp add: ndqs_sectioned, simp add: short_key_config_def)
  have e: "validate_all default_only_config wide_response = Inl MissingMarkingSchemeError"
    by code_simp
  note t1 = validate_all_section_invariant [of sectioned_config wide_response]
  note t2 = validate_all_section_invariant [of overlapping_config wide_response]
  note t3 = validate_all_section_invariant [of default_only_config wide_response]
  note t4 = validate_all_section_invariant [of short_key_config wide_response]
  have 1: "non_default_question_sets sectioned_config ! 0 \<inter> non_default_question_sets sectioned_config ! 1 = {}"
    using t1 a l by blast
  have 2: "\<Union>(set (non_default_question_sets sectioned_config)) = set (questions_in_order sectioned_config)"
    using t1 a by blast
  have 3: "\<exists>e. validate_all overlapping_config wide_response = Inl e"
    using t2 b by blast
  have 4: "\<exists>e. validate_all default_only_config wide_response = Inl e"
    using t3 c by blast
  have 5: "\<exists>e. validate_all short_key_config wide_response = Inl e"
    using t4 d by blast
  have 6: "evaluate_concatenated_response wide_response default_only_config =
     (default_only_config, Inl MissingMarkingSchemeError)"
    using t3 e by blast
  show ?thesis
    using a b c d e 1 2 3 4 5 6 by blast
qed

section \<open>A marking scheme without the default section\<close>

lemma question_wise_schemes_loop_total:
  "section_questions_loop ms acc = Inr S \<Longrightarrow>
     \<exists>qws'. question_wise_schemes_loop ms qws d =
       Inr (qws', if DEFAULT_SECTION_KEY \<in> fst ` set ms then Some DEFAULT_SECTION_KEY else d)"
proof (induction ms arbitrary: acc qws d)
  case Nil
  then show ?case by simp
next
  case (Cons entry rest)
  obtain sk s where entry: "entry = (sk, s)" by (cases entry)
  show ?case
  proof (cases "sk = DEFAULT_SECTION_KEY")
    case True
    then show ?thesis
      using Cons.prems Cons.IH [of acc qws "Some DEFAULT_SECTION_KEY"] by (auto simp: entry)
  next
    case False
    from Cons.prems False obtain qs where qs: "questions s = Some qs"
      by (cases "questions s") (simp_all add: entry)
    from Cons.prems False qs have r: "section_questions_loop rest (acc \<union> set qs) = Inr S"
      by (simp_all add: entry Let_def split: if_splits)
    from Cons.IH [OF r, of "fold (\<lambda>q m. m(q \<mapsto> sk)) qs qws" d] False qs show ?thesis
      by (auto simp: entry)
  qed
qed

text \<open>
  Claim C10. When the marking scheme has no default section, a pass that gets through
  \<^verbatim>\<open>validate_all\<close> and finds the first answer-key question in the response raises the
  unbound-local error at that first question, before any counter has changed, although
  every answer-key question belongs to a non-default section.
\<close>

theorem no_default_section_unbound:
  assumes "DEFAULT_SECTION_KEY \<notin> fst ` set (marking_scheme cfg)"
    and "validate_all cfg resp = Inr ()"
    and "questions_in_order cfg = q # qs"
    and "map_of resp q = Some marked"
  shows "evaluate_concatenated_response resp cfg = (cfg, Inl UnboundLocalError) \<and>
         set (questions_in_order cfg) = \<Union>(set (non_default_question_sets cfg))"
proof -
  from assms(2) have len: "length (questions_in_order cfg) = length (answers_in_order cfg)"
    and loop: "section_questions_loop (marking_scheme cfg) {} = Inr (set (questions_in_order cfg))"
    by (simp_all add: validate_all_Inr_iff)
  from question_wise_schemes_loop_total [OF loop, of Map.empty None] assms(1)
  obtain qws where qws: "question_wise_schemes_loop (marking_scheme cfg) Map.empty None = Inr (qws, None)"
    by auto
  from len assms(3) have pos: "\<not> 0 \<ge> length (answers_in_order cfg)" by auto
  have "score_loop resp qws None 0 (q # qs) cfg 0 = (cfg, Inl UnboundLocalError)"
    using pos assms(4) by (simp add: Let_def)
  then have "evaluate_concatenated_response resp cfg = (cfg, Inl UnboundLocalError)"
    using assms(2,3) qws
    by (simp add: evaluate_concatenated_response_def score_concatenated_response_def)
  moreover have "set (questions_in_order cfg) = \<Union>(set (non_default_question_sets cfg))"
    using validate_all_sections(2) [OF assms(2)] by simp
  ultimately show ?thesis by simp
qed

theorem no_default_section_unbound_witness:
  "DEFAULT_SECTION_KEY \<notin> fst ` set (marking_scheme no_default_config) \<and>
   validate_all no_default_config wide_response = Inr () \<and>
   questions_in_order no_default_config = ''q1'' # [''q2''] \<and>
   map_of wide_response ''q1'' = Some ''A'' \<and>
   evaluate_concatenated_response wide_response no_default_config =
     (no_default_config, Inl UnboundLocalError)"
proof -
  have a: "DEFAULT_SECTION_KEY \<notin> fst ` set (marking_scheme no_default_config)"
    by (simp add: no_default_config_def DEFAULT_SECTION_KEY_def)
  have b: "validate_all no_default_config wide_response = Inr ()" by code_simp
  have c: "questions_in_order no_default_config = ''q1'' # [''q2'']"
    by (simp add: no_default_config_def sectioned_config_def)
  have d: "map_of wide_response ''q1'' = Some ''A''" by (simp add: wide_response_def)
  show ?thesis
    using no_default_section_unbound [OF a b c d] a b c d by simp
qed

section \<open>What an evaluation pass changes\<close>

lemma same_refl: "same_up_to_streaks_and_rows cfg cfg"
  by (simp add: same_up_to_streaks_and_rows_def)

lemma same_trans:
  "same_up_to_streaks_and_rows a b \<Longrightarrow> same_up_to_streaks_and_rows b c \<Longrightarrow>
   same_up_to_streaks_and_rows a c"
  by (auto simp: same_up_to_streaks_and_rows_def)

lemma match_answer_section:
  "match_answer s marked correct = Inr (delta, v, s') \<Longrightarrow> s'\<lparr>streaks := z\<rparr> = s\<lparr>streaks := z\<rparr>"
  by (auto simp: match_answer_def Let_def update_streaks_for_verdict_eq
      split: option.splits pyval.splits if_splits)

lemma without_streaks_update:
  "map_of ms sk = Some s \<Longrightarrow> s'\<lparr>streaks := (\<lambda>v. 0)\<rparr> = s\<lparr>streaks := (\<lambda>v. 0)\<rparr> \<Longrightarrow>
   without_streaks (AList.update sk s' ms) = without_streaks ms"
  by (induction ms) (auto simp: without_streaks_def)

lemma same_after_match:
  assumes "map_of (marking_scheme cfg) sk = Some s"
    and "match_answer s marked correct = Inr (delta, v, s')"
  shows "same_up_to_streaks_and_rows cfg
           (cfg\<lparr>marking_scheme := AList.update sk s' (marking_scheme cfg)\<rparr>)"
  using without_streaks_update [OF assms(1) match_answer_section [OF assms(2)]]
  by (simp add: same_up_to_streaks_and_rows_def)

lemma same_after_explanation:
  "conditionally_add_explanation cfg correct delta marked s v q score = Inr cfg' \<Longrightarrow>
   same_up_to_streaks_and_rows cfg cfg'"
  by (auto simp: conditionally_add_explanation_def same_up_to_streaks_and_rows_def
      split: if_splits pyval.splits)

lemma score_loop_same:
  "same_up_to_streaks_and_rows cfg (fst (score_loop resp qws d i qs cfg score))"
proof (induction qs arbitrary: i cfg score)
  case Nil
  show ?case by (simp add: same_refl)
next
  case (Cons q qs)
  show ?case
  proof (cases "i \<ge> length (answers_in_order cfg)")
    case True
    then show ?thesis by (simp add: same_refl)
  next
    case i: False
    show ?thesis
    proof (cases "map_of resp q")
      case None
      then show ?thesis using i by (simp add: same_refl)
    next
      case marked: (Some marked)
      show ?thesis
      proof (cases d)
        case None
        then show ?thesis using i marked by (simp add: same_refl)
      next
        case dk: (Some dk)
        let ?sk = "case qws q of Some k \<Rightarrow> k | None \<Rightarrow> dk"
        show ?thesis
        proof (cases "map_of (marking_scheme cfg) ?sk")
          case None
          then show ?thesis using i marked dk by (simp add: same_refl Let_def)
        next
          case s: (Some s)
          show ?thesis
          proof (cases "match_answer s marked (answers_in_order cfg ! i)")
            case (Inl e)
            then show ?thesis using i marked dk s by (simp add: same_refl Let_def)
          next
            case (Inr res)
            obtain delta v s' where res: "res = (delta, v, s')" by (cases res)
            let ?cfg1 = "cfg\<lparr>marking_scheme := AList.update ?sk s' (marking_scheme cfg)\<rparr>"
            have m: "match_answer s marked (answers_in_order cfg ! i) = Inr (delta, v, s')"
              using Inr res by simp
            have 1: "same_up_to_streaks_and_rows cfg ?cfg1"
              using same_after_match [OF s m] .
            show ?thesis
            proof (cases "conditionally_add_explanation ?cfg1 (answers_in_order cfg ! i) delta marked
                            s' v q score")
              case (Inl e)
              then show ?thesis using i marked dk s m 1 by (simp add: Let_def)
            next
              case cfg2: (Inr cfg2)
              have 2: "same_up_to_streaks_and_rows cfg cfg2"
                using same_trans [OF 1 same_after_explanation [OF cfg2]] .
              show ?thesis
              proof (cases delta)
                case (PyNum x)
                have "same_up_to_streaks_and_rows cfg2
                        (fst (score_loop resp qws d (i + 1) qs cfg2 (score + x)))"
                  by (rule Cons.IH)
                then show ?thesis
                  using i marked dk s m cfg2 PyNum same_trans [OF 2] by (simp add: Let_def)
              qed (use i marked dk s m cfg2 2 in \<open>simp_all add: Let_def\<close>)
            qed
          qed
        qed
      qed
    qed
  qed
qed

lemma evaluate_same:
  "same_up_to_streaks_and_rows cfg (fst (evaluate_concatenated_response resp cfg))"
  by (auto simp: evaluate_concatenated_response_def score_concatenated_response_def
      same_refl score_loop_same split: sum.splits)

lemma explained_config_built:
  "EvaluationConfig_init explained_json '''' = ([], Inr explained_config)"
  by (simp add: EvaluationConfig_init_def explained_json_def explained_config_def
      sectioned_json_def sectioned_config_def
      default_section_def plain_section_def parse_questions_in_order_def parse_questions_def
      parse_question_string_def SectionMarkingScheme_init_def plain_marking_parses
      DEFAULT_SECTION_KEY_def)

lemma match_answer_commit:
  "match_answer s marked correct = Inr (delta, v, s') \<Longrightarrow>
   v = get_question_verdict s marked correct \<and> s' = s\<lparr>streaks := commit_streak v (streaks s)\<rparr>"
  by (auto simp: match_answer_def Let_def update_streaks_for_verdict_eq commit_streak_def
      split: option.splits pyval.splits if_splits)

lemma verdicts_of_empty_val:
  "empty_val s' = empty_val s \<Longrightarrow> verdicts_of f resp sk s' qas = verdicts_of f resp sk s qas"
  by (simp add: verdicts_of_def get_question_verdict_def)

lemma verdicts_of_append:
  "verdicts_of f resp sk s (xs @ ys) = verdicts_of f resp sk s xs @ verdicts_of f resp sk s ys"
  by (simp add: verdicts_of_def)

lemma counters_follow_refl: "counters_follow f resp [] ms ms"
  by (simp add: counters_follow_def verdicts_of_def)

lemma counters_follow_trans:
  assumes "counters_follow f resp xs ms ms1" and "counters_follow f resp ys ms1 ms2"
  shows "counters_follow f resp (xs @ ys) ms ms2"
  unfolding counters_follow_def
proof (intro allI impI)
  fix sk s assume "map_of ms sk = Some s"
  with assms(1) obtain s1 where 1: "map_of ms1 sk = Some s1" "empty_val s1 = empty_val s"
    "streaks s1 = fold commit_streak (verdicts_of f resp sk s xs) (streaks s)"
    unfolding counters_follow_def by blast
  with assms(2) obtain s2 where 2: "map_of ms2 sk = Some s2" "empty_val s2 = empty_val s1"
    "streaks s2 = fold commit_streak (verdicts_of f resp sk s1 ys) (streaks s1)"
    unfolding counters_follow_def by blast
  show "\<exists>s'. map_of ms2 sk = Some s' \<and> empty_val s' = empty_val s \<and>
        streaks s' = fold commit_streak (verdicts_of f resp sk s (xs @ ys)) (streaks s)"
    using 1 2 verdicts_of_empty_val [OF 1(2), of f resp sk ys]
    by (simp add: verdicts_of_append)
qed

lemma counters_follow_one:
  assumes "map_of ms sk0 = Some s0" and "f q = Some sk0" and "map_of resp q = Some marked"
  shows "counters_follow f resp [(q, a)] ms
           (AList.update sk0 (s0\<lparr>streaks := commit_streak (get_question_verdict s0 marked a) (streaks s0)\<rparr>) ms)"
  using assms by (auto simp: counters_follow_def verdicts_of_def update_conv')

lemma score_loop_counters:
  "\<exists>n\<le>length qs.
     counters_follow (scoring_section_of qws d) resp (take n (zip qs (drop i (answers_in_order cfg))))
       (marking_scheme cfg) (marking_scheme (fst (score_loop resp qws d i qs cfg score))) \<and>
     ((\<exists>sc. snd (score_loop resp qws d i qs cfg score) = Inr sc) \<longrightarrow> n = length qs)"
proof (induction qs arbitrary: i cfg score)
  case Nil
  show ?case by (simp add: counters_follow_refl)
next
  case (Cons q qs)
  let ?R = "score_loop resp qws d i (q # qs) cfg score"
  have stop: ?case if "fst ?R = cfg" "\<forall>sc. snd ?R \<noteq> Inr sc"
    using that by (intro exI [of _ 0]) (simp add: counters_follow_refl)
  show ?case
  proof (cases "i \<ge> length (answers_in_order cfg)")
    case True
    then show ?thesis by (intro stop) simp_all
  next
    case i: False
    then have dr: "drop i (answers_in_order cfg) =
        answers_in_order cfg ! i # drop (Suc i) (answers_in_order cfg)"
      by (simp add: Cons_nth_drop_Suc)
    show ?thesis
    proof (cases "map_of resp q")
      case None
      then show ?thesis using i by (intro stop) simp_all
    next
      case marked: (Some marked)
      show ?thesis
      proof (cases d)
        case None
        then show ?thesis using i marked by (intro stop) simp_all
      next
        case dk: (Some dk)
        let ?sk = "case qws q of Some k \<Rightarrow> k | None \<Rightarrow> dk"
        have f: "scoring_section_of qws d q = Some ?sk"
          by (simp add: scoring_section_of_def dk)
        show ?thesis
        proof (cases "map_of (marking_scheme cfg) ?sk")
          case None
          then show ?thesis using i marked dk by (intro stop) (simp_all add: Let_def)
        next
          case s: (Some s)
          show ?thesis
          proof (cases "match_answer s marked (answers_in_order cfg ! i)")
            case (Inl e)
            then show ?thesis using i marked dk s by (intro stop) (simp_all add: Let_def)
          next
            case (Inr res)
            obtain delta v s' where res: "res = (delta, v, s')" by (cases res)
            have m: "match_answer s marked (answers_in_order cfg ! i) = Inr (delta, v, s')"
              using Inr res by simp
            let ?ms1 = "AList.update ?sk s' (marking_scheme cfg)"
            let ?cfg1 = "cfg\<lparr>marking_scheme := ?ms1\<rparr>"
            have one: "counters_follow (scoring_section_of qws d) resp [(q, answers_in_order cfg ! i)]
                (marking_scheme cfg) ?ms1"
              using counters_follow_one [of "marking_scheme cfg" ?sk s "scoring_section_of qws d" q
                  resp marked "answers_in_order cfg ! i"] s f marked
                match_answer_commit [OF m] by simp
            have halt: ?thesis if "marking_scheme (fst ?R) = ?ms1" "\<forall>sc. snd ?R \<noteq> Inr sc"
              using that one dr by (intro exI [of _ 1]) simp
            show ?thesis
            proof (cases "conditionally_add_explanation ?cfg1 (answers_in_order cfg ! i) delta marked
                            s' v q score")
              case (Inl e)
              then show ?thesis using i marked dk s m by (intro halt) (simp_all add: Let_def)
            next
              case cfg2: (Inr cfg2)
              have c2: "marking_scheme cfg2 = ?ms1" "answers_in_order cfg2 = answers_in_order cfg"
                using cfg2
                by (auto simp: conditionally_add_explanation_def split: if_splits pyval.splits)
              have other: ?thesis if "\<forall>x. delta \<noteq> PyNum x"
              proof -
                have "?R = (cfg2, Inl TypeError)"
                  using i marked dk s m cfg2 that by (cases delta) (simp_all add: Let_def)
                then show ?thesis using c2 by (intro halt) simp_all
              qed
              show ?thesis
              proof (cases delta)
                case (PyNum x)
                have R: "?R = score_loop resp qws d (Suc i) qs cfg2 (score + x)"
                  using i marked dk s m cfg2 PyNum by (simp add: Let_def)
                from Cons.IH [of "Suc i" cfg2 "score + x"]
                obtain n where n: "n \<le> length qs"
                  "counters_follow (scoring_section_of qws d) resp
                     (take n (zip qs (drop (Suc i) (answers_in_order cfg)))) ?ms1
                     (marking_scheme (fst ?R))"
                  "(\<exists>sc. snd ?R = Inr sc) \<longrightarrow> n = length qs"
                  unfolding R c2 by blast
                have "counters_follow (scoring_section_of qws d) resp
                     ([(q, answers_in_order cfg ! i)] @ take n (zip qs (drop (Suc i) (answers_in_order cfg))))
                     (marking_scheme cfg) (marking_scheme (fst ?R))"
                  using counters_follow_trans [OF one n(2)] .
                then show ?thesis
                  using n(1,3) dr by (intro exI [of _ "Suc n"]) simp
              qed (rule other, simp)+
            qed
          qed
        qed
      qed
    qed
  qed
qed

lemma scoring_section_of_loop:
  "question_wise_schemes_loop (marking_scheme cfg) Map.empty None = Inr (qws, d) \<Longrightarrow>
   scoring_section cfg = scoring_section_of qws d"
  by (rule ext) (simp add: scoring_section_def)

lemma evaluate_counters:
  "\<exists>n\<le>length (questions_in_order cfg).
     counters_follow (scoring_section cfg) resp
       (take n (zip (questions_in_order cfg) (answers_in_order cfg)))
       (marking_scheme cfg)
       (marking_scheme (fst (evaluate_concatenated_response resp cfg))) \<and>
     ((\<exists>sc. snd (evaluate_concatenated_response resp cfg) = Inr sc) \<longrightarrow>
        n = length (questions_in_order cfg))"
proof (cases "validate_all cfg resp")
  case (Inl e)
  then show ?thesis
    by (intro exI [of _ 0]) (simp add: evaluate_concatenated_response_def counters_follow_refl)
next
  case (Inr u)
  show ?thesis
  proof (cases "question_wise_schemes_loop (marking_scheme cfg) Map.empty None")
    case (Inl e)
    then show ?thesis using Inr
      by (intro exI [of _ 0])
        (simp add: evaluate_concatenated_response_def score_concatenated_response_def
          counters_follow_refl)
  next
    case loop: (Inr res)
    obtain qws d where res: "res = (qws, d)" by (cases res)
    have e: "evaluate_concatenated_response resp cfg =
        score_loop resp qws d 0 (questions_in_order cfg) cfg 0"
      using Inr loop res
      by (simp add: evaluate_concatenated_response_def score_concatenated_response_def)
    have f: "scoring_section cfg = scoring_section_of qws d"
      using loop res by (intro scoring_section_of_loop) simp
    show ?thesis
      using score_loop_counters [of "questions_in_order cfg" qws d resp 0 cfg 0]
      unfolding e f by simp
  qed
qed

lemma fold_upd_lookup:
  "fold (\<lambda>q m. m(q \<mapsto> sk)) qs qws q' = (if q' \<in> set qs then Some sk else qws q')"
  by (induction qs arbitrary: qws) auto

lemma question_wise_schemes_loop_step:
  assumes "question_wise_schemes_loop ((sk, s) # rest) qws d = Inr (qws', d')"
  obtains (dflt) "sk = DEFAULT_SECTION_KEY"
      "question_wise_schemes_loop rest qws (Some sk) = Inr (qws', d')"
    | (listed) qs where "sk \<noteq> DEFAULT_SECTION_KEY" "questions s = Some qs"
      "question_wise_schemes_loop rest (fold (\<lambda>q m. m(q \<mapsto> sk)) qs qws) d = Inr (qws', d')"
  using assms by (cases "sk = DEFAULT_SECTION_KEY"; cases "questions s") simp_all

lemma question_wise_schemes_loop_default:
  "question_wise_schemes_loop ms qws d = Inr (qws', d') \<Longrightarrow>
   d' = d \<or> d' = Some DEFAULT_SECTION_KEY"
proof (induction ms arbitrary: qws d)
  case Nil
  then show ?case by simp
next
  case (Cons entry rest)
  obtain sk s where entry: "entry = (sk, s)" by (cases entry)
  from Cons.prems [unfolded entry] show ?case
  proof (cases rule: question_wise_schemes_loop_step)
    case dflt
    from Cons.IH [OF dflt(2)] dflt(1) show ?thesis by auto
  next
    case (listed qs)
    from Cons.IH [OF listed(3)] show ?thesis .
  qed
qed

lemma question_wise_schemes_loop_Some:
  "question_wise_schemes_loop ms qws d = Inr (qws', d') \<Longrightarrow> qws' q = Some k \<Longrightarrow>
   qws q = Some k \<or>
   (k \<noteq> DEFAULT_SECTION_KEY \<and>
    (\<exists>s qs. (k, s) \<in> set ms \<and> questions s = Some qs \<and> q \<in> set qs))"
proof (induction ms arbitrary: qws d)
  case Nil
  then show ?case by simp
next
  case (Cons entry rest)
  obtain sk s where entry: "entry = (sk, s)" by (cases entry)
  from Cons.prems(1) [unfolded entry] show ?case
  proof (cases rule: question_wise_schemes_loop_step)
    case dflt
    from Cons.IH [OF dflt(2) Cons.prems(2)] show ?thesis by (auto simp: entry)
  next
    case (listed qs)
    from Cons.IH [OF listed(3) Cons.prems(2)]
    consider "fold (\<lambda>q m. m(q \<mapsto> sk)) qs qws q = Some k"
      | "k \<noteq> DEFAULT_SECTION_KEY \<and>
         (\<exists>s qs. (k, s) \<in> set rest \<and> questions s = Some qs \<and> q \<in> set qs)"
      by blast
    then show ?thesis
    proof cases
      case 1
      show ?thesis
      proof (cases "q \<in> set qs")
        case True
        with 1 have "k = sk" by (simp add: fold_upd_lookup)
        with True listed(1,2) show ?thesis by (auto simp: entry)
      next
        case False
        with 1 show ?thesis by (simp add: fold_upd_lookup)
      qed
    next
      case 2
      then show ?thesis by (auto simp: entry)
    qed
  qed
qed

lemma question_wise_schemes_loop_keeps:
  "question_wise_schemes_loop ms qws d = Inr (qws', d') \<Longrightarrow> qws q \<noteq> None \<Longrightarrow>
   qws' q \<noteq> None"
proof (induction ms arbitrary: qws d)
  case Nil
  then show ?case by simp
next
  case (Cons entry rest)
  obtain sk s where entry: "entry = (sk, s)" by (cases entry)
  from Cons.prems(1) [unfolded entry] show ?case
  proof (cases rule: question_wise_schemes_loop_step)
    case dflt
    from Cons.IH [OF dflt(2) Cons.prems(2)] show ?thesis .
  next
    case (listed qs)
    from Cons.prems(2) have "fold (\<lambda>q m. m(q \<mapsto> sk)) qs qws q \<noteq> None"
      by (simp add: fold_upd_lookup)
    from Cons.IH [OF listed(3) this] show ?thesis .
  qed
qed

lemma question_wise_schemes_loop_None:
  "question_wise_schemes_loop ms qws d = Inr (qws', d') \<Longrightarrow> qws' q = None \<Longrightarrow>
   (k, s) \<in> set ms \<Longrightarrow> k \<noteq> DEFAULT_SECTION_KEY \<Longrightarrow> questions s = Some qs \<Longrightarrow>
   q \<notin> set qs"
proof (induction ms arbitrary: qws d)
  case Nil
  then show ?case by simp
next
  case (Cons entry rest)
  obtain sk0 s0 where entry: "entry = (sk0, s0)" by (cases entry)
  from Cons.prems(1) [unfolded entry] show ?case
  proof (cases rule: question_wise_schemes_loop_step)
    case dflt
    with Cons.prems(3,4) have "(k, s) \<in> set rest" by (auto simp: entry)
    from Cons.IH [OF dflt(2) Cons.prems(2) this Cons.prems(4,5)] show ?thesis .
  next
    case (listed qs0)
    show ?thesis
    proof (cases "(k, s) \<in> set rest")
      case True
      from Cons.IH [OF listed(3) Cons.prems(2) True Cons.prems(4,5)] show ?thesis .
    next
      case False
      with Cons.prems(3) have e: "k = sk0" "s = s0" by (auto simp: entry)
      with listed(2) Cons.prems(5) have q: "qs0 = qs" by simp
      show ?thesis
      proof
        assume "q \<in> set qs"
        then have "fold (\<lambda>q m. m(q \<mapsto> sk0)) qs0 qws q = Some sk0"
          by (simp add: fold_upd_lookup q)
        then have "fold (\<lambda>q m. m(q \<mapsto> sk0)) qs0 qws q \<noteq> None" by simp
        from question_wise_schemes_loop_keeps [OF listed(3) this] Cons.prems(2)
        show False by simp
      qed
    qed
  qed
qed

text \<open>
  The lookup of line 283 returns, for a question, either a non-default section that
  lists the question, or the default section when no non-default section lists it.
\<close>

lemma scoring_section_lists:
  assumes "scoring_section cfg q = Some sk"
  shows "(sk \<noteq> DEFAULT_SECTION_KEY \<and>
          (\<exists>s qs. (sk, s) \<in> set (marking_scheme cfg) \<and> questions s = Some qs \<and> q \<in> set qs)) \<or>
         (sk = DEFAULT_SECTION_KEY \<and>
          (\<forall>k s qs. (k, s) \<in> set (marking_scheme cfg) \<and> k \<noteq> DEFAULT_SECTION_KEY \<and>
             questions s = Some qs \<longrightarrow> q \<notin> set qs))"
proof -
  from assms obtain qws dk where
    loop: "question_wise_schemes_loop (marking_scheme cfg) Map.empty None = Inr (qws, Some dk)"
    and sk: "sk = (case qws q of Some k \<Rightarrow> k | None \<Rightarrow> dk)"
    by (auto simp: scoring_section_def scoring_section_of_def split: sum.splits option.splits)
  from question_wise_schemes_loop_default [OF loop] have dk: "dk = DEFAULT_SECTION_KEY" by simp
  show ?thesis
  proof (cases "qws q")
    case None
    then have "sk = DEFAULT_SECTION_KEY" using sk dk by simp
    moreover have "q \<notin> set qs"
      if "(k, s) \<in> set (marking_scheme cfg)" "k \<noteq> DEFAULT_SECTION_KEY" "questions s = Some qs"
      for k s qs
      using question_wise_schemes_loop_None [OF loop None that] .
    ultimately show ?thesis by blast
  next
    case (Some k)
    then have "sk = k" using sk by simp
    with question_wise_schemes_loop_Some [OF loop Some] show ?thesis by auto
  qed
qed

text \<open>
  Claim C7, as the code has it. Whatever the response and whether or not the pass ends
  in an error, the configuration after \<^verbatim>\<open>evaluate_concatenated_response\<close> has the same
  answer key, the same explanation switch and the same sections in the same order with
  the same keys, question lists, empty value and marking rules; it differs at most in the
  streak counters and, when explanations are switched on, in rows appended to the
  explanation table. The counters are never reset: for every configuration and every
  response, each section ends the pass with the counters it had when the pass began,
  advanced by the verdicts of the questions it scored in this pass, in the order of the
  answer key. These are all the questions of the answer key when the pass returns a
  score, and the first \<^verbatim>\<open>n\<close> of them, for some \<^verbatim>\<open>n\<close>, when it raises. Since this holds
  for the configuration that an earlier pass returned, a second pass starts from the
  counters left at the end of the first.
\<close>

theorem evaluation_changes_streaks_and_rows_only:
  "same_up_to_streaks_and_rows cfg (fst (evaluate_concatenated_response resp cfg)) \<and>
   (\<exists>n\<le>length (questions_in_order cfg).
      counters_follow (scoring_section cfg) resp
        (take n (zip (questions_in_order cfg) (answers_in_order cfg)))
        (marking_scheme cfg)
        (marking_scheme (fst (evaluate_concatenated_response resp cfg))) \<and>
      ((\<exists>score. snd (evaluate_concatenated_response resp cfg) = Inr score) \<longrightarrow>
         n = length (questions_in_order cfg)))"
  using evaluate_same [of cfg resp] evaluate_counters [of cfg resp] by (rule conjI)

theorem evaluation_changes_streaks_and_rows_only_witness:
  "\<not> should_explain_scoring sectioned_config \<and>
   snd (evaluate_concatenated_response wide_response sectioned_config) = Inr (3 / 4) \<and>
   explanation_table (fst (evaluate_concatenated_response wide_response sectioned_config)) =
     explanation_table sectioned_config \<and>
   questions_in_order (fst (evaluate_concatenated_response wide_response sectioned_config)) =
     questions_in_order sectioned_config \<and>
   answers_in_order (fst (evaluate_concatenated_response wide_response sectioned_config)) =
     answers_in_order sectioned_config \<and>
   without_streaks (marking_scheme (fst (evaluate_concatenated_response wide_response sectioned_config))) =
     without_streaks (marking_scheme sectioned_config) \<and>
   map_of (marking_scheme sectioned_config) ''S1'' = Some (plain_section ''S1'' [''q1'']) \<and>
   (\<exists>s' s''.
      map_of (marking_scheme (fst (evaluate_concatenated_response wide_response sectioned_config)))
        ''S1'' = Some s' \<and>
      streaks s' = commit_streak Correct (streaks (plain_section ''S1'' [''q1''])) \<and>
      map_of (marking_scheme (fst (evaluate_concatenated_response wide_response
        (fst (evaluate_concatenated_response wide_response sectioned_config))))) ''S1'' = Some s'' \<and>
      streaks s'' = commit_streak Correct (streaks s')) \<and>
   streak_counters (fst (evaluate_concatenated_response wide_response sectioned_config)) =
     [(''S1'', 1, 0, 0), (''S2'', 0, 1, 0), (DEFAULT_SECTION_KEY, 0, 0, 0)] \<and>
   streak_counters (fst (evaluate_concatenated_response wide_response
       (fst (evaluate_concatenated_response wide_response sectioned_config)))) =
     [(''S1'', 2, 0, 0), (''S2'', 0, 2, 0), (DEFAULT_SECTION_KEY, 0, 0, 0)]"
proof -
  let ?c1 = "fst (evaluate_concatenated_response wide_response sectioned_config)"
  let ?c2 = "fst (evaluate_concatenated_response wide_response ?c1)"
  let ?s = "plain_section ''S1'' [''q1'']"
  have a: "\<not> should_explain_scoring sectioned_config"
    by (simp add: sectioned_config_def)
  have ok1: "snd (evaluate_concatenated_response wide_response sectioned_config) = Inr (3 / 4)"
    by code_simp
  have ok2: "snd (evaluate_concatenated_response wide_response ?c1) = Inr (3 / 4)"
    by code_simp
  have len: "length (questions_in_order sectioned_config) = 2" "length (questions_in_order ?c1) = 2"
    by code_simp+
  have m0: "map_of (marking_scheme sectioned_config) ''S1'' = Some ?s"
    by (simp add: sectioned_config_def)
  have v0: "verdicts_of (scoring_section sectioned_config) wide_response ''S1'' ?s
      (take 2 (zip (questions_in_order sectioned_config) (answers_in_order sectioned_config))) = [Correct]"
    by code_simp
  have v1: "verdicts_of (scoring_section ?c1) wide_response ''S1'' ?s
      (take 2 (zip (questions_in_order ?c1) (answers_in_order ?c1))) = [Correct]"
    by code_simp
  note t0 = evaluation_changes_streaks_and_rows_only [of sectioned_config wide_response]
  note t1 = evaluation_changes_streaks_and_rows_only [of ?c1 wide_response]
  have f0: "counters_follow (scoring_section sectioned_config) wide_response
      (take 2 (zip (questions_in_order sectioned_config) (answers_in_order sectioned_config)))
      (marking_scheme sectioned_config) (marking_scheme ?c1)"
  proof -
    from t0 obtain n where n:
      "counters_follow (scoring_section sectioned_config) wide_response
         (take n (zip (questions_in_order sectioned_config) (answers_in_order sectioned_config)))
         (marking_scheme sectioned_config) (marking_scheme ?c1)"
      "(\<exists>score. snd (evaluate_concatenated_response wide_response sectioned_config) = Inr score)
         \<longrightarrow> n = length (questions_in_order sectioned_config)"
      by blast
    have "\<exists>score. snd (evaluate_concatenated_response wide_response sectioned_config) = Inr score"
      using ok1 by (rule exI)
    with n(2) len(1) have "n = 2" by simp
    with n(1) show ?thesis by simp
  qed
  have f1: "counters_follow (scoring_section ?c1) wide_response
      (take 2 (zip (questions_in_order ?c1) (answers_in_order ?c1)))
      (marking_scheme ?c1) (marking_scheme ?c2)"
  proof -
    from t1 obtain n where n:
      "counters_follow (scoring_section ?c1) wide_response
         (take n (zip (questions_in_order ?c1) (answers_in_order ?c1)))
         (marking_scheme ?c1) (marking_scheme ?c2)"
      "(\<exists>score. snd (evaluate_concatenated_response wide_response ?c1) = Inr score)
         \<longrightarrow> n = length (questions_in_order ?c1)"
      by blast
    have "\<exists>score. snd (evaluate_concatenated_response wide_response ?c1) = Inr score"
      using ok2 by (rule exI)
    with n(2) len(2) have "n = 2" by simp
    with n(1) show ?thesis by simp
  qed
  from f0 m0 obtain s' where r: "map_of (marking_scheme ?c1) ''S1'' = Some s'"
    "empty_val s' = empty_val ?s"
    "streaks s' = fold commit_streak (verdicts_of (scoring_section sectioned_config) wide_response
        ''S1'' ?s (take 2 (zip (questions_in_order sectioned_config)
          (answers_in_order sectioned_config)))) (streaks ?s)"
    unfolding counters_follow_def by blast
  have s': "map_of (marking_scheme ?c1) ''S1'' = Some s'"
    "empty_val s' = empty_val ?s" "streaks s' = commit_streak Correct (streaks ?s)"
    using r by (simp_all add: v0)
  from f1 s'(1) obtain s'' where s'': "map_of (marking_scheme ?c2) ''S1'' = Some s''"
    "streaks s'' = fold commit_streak (verdicts_of (scoring_section ?c1) wide_response ''S1'' s'
        (take 2 (zip (questions_in_order ?c1) (answers_in_order ?c1)))) (streaks s')"
    unfolding counters_follow_def by blast
  have s2: "streaks s'' = commit_streak Correct (streaks s')"
    using s''(2) verdicts_of_empty_val [OF s'(2)] v1 by simp
  have frame: "same_up_to_streaks_and_rows sectioned_config ?c1"
    using t0 by (rule conjunct1)
  have c1: "streak_counters ?c1 = [(''S1'', 1, 0, 0), (''S2'', 0, 1, 0), (DEFAULT_SECTION_KEY, 0, 0, 0)]"
    by code_simp
  have c2: "streak_counters ?c2 = [(''S1'', 2, 0, 0), (''S2'', 0, 2, 0), (DEFAULT_SECTION_KEY, 0, 0, 0)]"
    by code_simp
  have ex: "\<exists>s' s''. map_of (marking_scheme ?c1) ''S1'' = Some s' \<and>
      streaks s' = commit_streak Correct (streaks ?s) \<and>
      map_of (marking_scheme ?c2) ''S1'' = Some s'' \<and>
      streaks s'' = commit_streak Correct (streaks s')"
    using s'(1,3) s''(1) s2 by blast
  show ?thesis
    using a ok1 frame m0 ex c1 c2 by (simp add: same_up_to_streaks_and_rows_def)
qed

text \<open>
  Claim C7 as stated fails: with explanations switched on, a pass also changes the
  explanation table of the configuration, which gets a row for every question scored.
\<close>

theorem explanation_table_counterexample:
  "EvaluationConfig_init explained_json '''' = ([], Inr explained_config) \<and>
   explanation_table explained_config = [] \<and>
   snd (evaluate_concatenated_response wide_response explained_config) = Inr (3 / 4) \<and>
   explanation_table (fst (evaluate_concatenated_response wide_response explained_config)) =
     [\<lparr>row_question = ''q1'', row_marked = ''A'', row_correct = ''A'', row_verdict = Correct,
       row_delta = 1, row_score = 1, row_section = ''S1'', row_streak = 1\<rparr>,
      \<lparr>row_question = ''q2'', row_marked = ''C'', row_correct = ''B'', row_verdict = Incorrect,
       row_delta = - 1 / 4, row_score = 3 / 4, row_section = ''S2'', row_streak = 1\<rparr>]"
proof (intro conjI)
  show "EvaluationConfig_init explained_json '''' = ([], Inr explained_config)"
    by (rule explained_config_built)
  show "explanation_table explained_config = []"
    by (simp add: explained_config_def sectioned_config_def)
  show "snd (evaluate_concatenated_response wide_response explained_config) = Inr (3 / 4)"
    by code_simp
  show "explanation_table (fst (evaluate_concatenated_response wide_response explained_config)) =
     [\<lparr>row_question = ''q1'', row_marked = ''A'', row_correct = ''A'', row_verdict = Correct,
       row_delta = 1, row_score = 1, row_section = ''S1'', row_streak = 1\<rparr>,
      \<lparr>row_question = ''q2'', row_marked = ''C'', row_correct = ''B'', row_verdict = Incorrect,
       row_delta = - 1 / 4, row_score = 3 / 4, row_section = ''S2'', row_streak = 1\<rparr>]"
    by code_simp
qed

section \<open>The warning of parse_scheme_marking\<close>

text \<open>
  Whatever \<^verbatim>\<open>float\<close> and \<^verbatim>\<open>Fraction\<close> return, a warning is logged only while the
  loop handles a string value for incorrect answers.
\<close>

lemma parse_scheme_marking_loop_silent:
  "\<forall>s. m Incorrect \<noteq> Some (PyStr s) \<Longrightarrow>
   fst (parse_scheme_marking_loop sk m vts parsed ws) = ws"
proof (induction vts arbitrary: parsed ws)
  case Nil
  show ?case by simp
next
  case (Cons vt vts)
  show ?case
  proof (cases "m vt")
    case None
    then show ?thesis by simp
  next
    case (Some v)
    show ?thesis
    proof (cases v)
      case (PyStr s)
      with Some Cons.prems have ni: "vt \<noteq> Incorrect" by auto
      show ?thesis
      proof (cases "parse_float_or_fraction s")
        case (Inl e)
        then show ?thesis using Some PyStr by simp
      next
        case (Inr r)
        then show ?thesis using Some PyStr ni Cons.IH [OF Cons.prems] by simp
      qed
    qed (use Some Cons.IH [OF Cons.prems] in simp_all)
  qed
qed
text \<open>
  The branch for string values does log the warning: the literal \<^verbatim>\<open>"1/2"\<close>, which
  \<^verbatim>\<open>Fraction\<close> and \<^verbatim>\<open>float\<close> read exactly, is accepted with it.
\<close>

lemma half_parses: "parse_float_or_fraction ''1/2'' = Inr (1 / 2)"
  by code_simp

lemma half_mark_string_warns:
  "parse_scheme_marking ''S1'' half_mark_string_marking =
     ([PositiveMarksForIncorrect (1 / 2) ''S1''], Inr half_mark_number_marking)"
  by (simp add: half_mark_string_marking_def half_mark_number_marking_def
      parse_scheme_marking_def MARKING_VERDICT_TYPES_def half_parses startswith_def
      BONUS_SECTION_PREFIX_def)

text \<open>
  Claim C9. The warning for a strictly positive value for incorrect answers is logged
  in the branch for string values alone. In a section without the bonus prefix the rule
  with the number 0.5 for incorrect answers is accepted without a warning; and no rule
  whose value for incorrect answers is a number gets a warning, whatever the number and
  the section key are.
\<close>

theorem positive_incorrect_number_gets_no_warning:
  "\<not> startswith ''S1'' BONUS_SECTION_PREFIX \<and>
   half_mark_number_marking Incorrect = Some (PyNum (1 / 2)) \<and>
   parse_scheme_marking ''S1'' half_mark_number_marking = ([], Inr half_mark_number_marking) \<and>
   fst (parse_scheme_marking sk (m(Incorrect \<mapsto> PyNum r))) = []"
proof (intro conjI)
  show "\<not> startswith ''S1'' BONUS_SECTION_PREFIX"
    by (simp add: startswith_def BONUS_SECTION_PREFIX_def)
  show "half_mark_number_marking Incorrect = Some (PyNum (1 / 2))"
    by (simp add: half_mark_number_marking_def)
  show "parse_scheme_marking ''S1'' half_mark_number_marking = ([], Inr half_mark_number_marking)"
    by (simp add: half_mark_number_marking_def parse_scheme_marking_def MARKING_VERDICT_TYPES_def)
  show "fst (parse_scheme_marking sk (m(Incorrect \<mapsto> PyNum r))) = []"
    unfolding parse_scheme_marking_def
    by (rule parse_scheme_marking_loop_silent) simp
qed

end
